theory Spec2Isabelle
  imports Complex_Main
begin

section \<open>Numbers\<close>

text \<open>
  The tensors of \<^verbatim>\<open>Encode_Image.py\<close> hold IEEE floating-point numbers and the blending
  weights are Python floats. A value is modelled as a real number or one of the three
  special values: the arithmetic is exact on the reals (rounding is not modelled) and
  follows IEEE 754 on infinities, on NaN and on division by zero. The two signed zeros
  are one value, so a nonzero number divided by zero is the infinity of the numerator's
  sign.
\<close>

datatype fl = Fin real | PInf | NInf | NaN

fun fneg :: "fl \<Rightarrow> fl" where
  "fneg (Fin a) = Fin (- a)"
| "fneg PInf = NInf"
| "fneg NInf = PInf"
| "fneg NaN = NaN"

fun fadd :: "fl \<Rightarrow> fl \<Rightarrow> fl" where
  "fadd (Fin a) (Fin b) = Fin (a + b)"
| "fadd NaN _ = NaN"
| "fadd _ NaN = NaN"
| "fadd PInf NInf = NaN"
| "fadd NInf PInf = NaN"
| "fadd PInf _ = PInf"
| "fadd _ PInf = PInf"
| "fadd NInf _ = NInf"
| "fadd _ NInf = NInf"

definition fsub :: "fl \<Rightarrow> fl \<Rightarrow> fl" where
  "fsub a b = fadd a (fneg b)"

text \<open>An infinity of the sign of \<open>a\<close>, and NaN for \<open>a = 0\<close>.\<close>

definition signed_inf :: "real \<Rightarrow> fl" where
  "signed_inf a = (if a = 0 then NaN else if 0 < a then PInf else NInf)"

fun fmul :: "fl \<Rightarrow> fl \<Rightarrow> fl" where
  "fmul (Fin a) (Fin b) = Fin (a * b)"
| "fmul NaN _ = NaN"
| "fmul _ NaN = NaN"
| "fmul (Fin a) PInf = signed_inf a"
| "fmul (Fin a) NInf = signed_inf (- a)"
| "fmul PInf (Fin b) = signed_inf b"
| "fmul NInf (Fin b) = signed_inf (- b)"
| "fmul PInf PInf = PInf"
| "fmul NInf NInf = PInf"
| "fmul PInf NInf = NInf"
| "fmul NInf PInf = NInf"

fun fdiv :: "fl \<Rightarrow> fl \<Rightarrow> fl" where
  "fdiv (Fin a) (Fin b) = (if b = 0 then signed_inf a else Fin (a / b))"
| "fdiv NaN _ = NaN"
| "fdiv _ NaN = NaN"
| "fdiv (Fin a) PInf = Fin 0"
| "fdiv (Fin a) NInf = Fin 0"
| "fdiv PInf (Fin b) = (if 0 \<le> b then PInf else NInf)"
| "fdiv NInf (Fin b) = (if 0 \<le> b then NInf else PInf)"
| "fdiv PInf PInf = NaN"
| "fdiv PInf NInf = NaN"
| "fdiv NInf PInf = NaN"
| "fdiv NInf NInf = NaN"

fun fsqrt :: "fl \<Rightarrow> fl" where
  "fsqrt (Fin a) = (if a < 0 then NaN else Fin (sqrt a))"
| "fsqrt PInf = PInf"
| "fsqrt NInf = NaN"
| "fsqrt NaN = NaN"

fun fsin :: "fl \<Rightarrow> fl" where
  "fsin (Fin a) = Fin (sin a)"
| "fsin PInf = NaN"
| "fsin NInf = NaN"
| "fsin NaN = NaN"

fun facos :: "fl \<Rightarrow> fl" where
  "facos (Fin a) = (if - 1 \<le> a \<and> a \<le> 1 then Fin (arccos a) else NaN)"
| "facos PInf = NaN"
| "facos NInf = NaN"
| "facos NaN = NaN"

fun fexp :: "fl \<Rightarrow> fl" where
  "fexp (Fin a) = Fin (exp a)"
| "fexp PInf = PInf"
| "fexp NInf = Fin 0"
| "fexp NaN = NaN"

text \<open>Python's \<^verbatim>\<open>sum\<close> and torch's \<^verbatim>\<open>sum\<close>: start at zero, add from the left.\<close>

definition fsum :: "fl list \<Rightarrow> fl" where
  "fsum xs = foldl fadd (Fin 0) xs"

text \<open>
  \<^verbatim>\<open>np.isclose(a, b)\<close> with numpy's defaults \<^verbatim>\<open>rtol=1e-05\<close>, \<^verbatim>\<open>atol=1e-08\<close>,
  \<^verbatim>\<open>equal_nan=False\<close>: finite numbers are close when
  \<open>\<bar>a - b\<bar> \<le> atol + rtol * \<bar>b\<bar>\<close>, an infinity is close to itself only, NaN to nothing.
\<close>

definition rtol :: real where
  "rtol = 1 / 10 ^ 5"

definition atol :: real where
  "atol = 1 / 10 ^ 8"

fun isclose :: "fl \<Rightarrow> fl \<Rightarrow> bool" where
  "isclose (Fin a) (Fin b) = (\<bar>a - b\<bar> \<le> atol + rtol * \<bar>b\<bar>)"
| "isclose PInf PInf = True"
| "isclose NInf NInf = True"
| "isclose _ _ = False"

section \<open>Errors\<close>

text \<open>
  The exceptions the code can raise: a failed \<^verbatim>\<open>assert\<close> with its message, torch's
  \<^verbatim>\<open>RuntimeError\<close> (shapes that do not fit) and Python's \<^verbatim>\<open>IndexError\<close>. A
  computation returns \<open>Inl\<close> of the exception or \<open>Inr\<close> of its value.
\<close>

datatype error = AssertionError string | RuntimeError | IndexError

definition ebind :: "error + 'a \<Rightarrow> ('a \<Rightarrow> error + 'b) \<Rightarrow> error + 'b" where
  "ebind r f = (case r of Inl e \<Rightarrow> Inl e | Inr x \<Rightarrow> f x)"

fun is_assertion :: "error + 'a \<Rightarrow> bool" where
  "is_assertion (Inl (AssertionError msg)) = True"
| "is_assertion _ = False"

section \<open>Tensors\<close>

text \<open>
  A tensor is its shape and its elements in row-major order (torch's contiguous layout).
  A tensor that torch can build has as many elements as its shape says.
\<close>

record tensor =
  shape :: "nat list"
  data :: "fl list"

definition wf_tensor :: "tensor \<Rightarrow> bool" where
  "wf_tensor t = (length (data t) = prod_list (shape t))"

definition tmap :: "(fl \<Rightarrow> fl) \<Rightarrow> tensor \<Rightarrow> tensor" where
  "tmap f t = \<lparr>shape = shape t, data = map f (data t)\<rparr>"

text \<open>\<^verbatim>\<open>t * w\<close>, \<^verbatim>\<open>w * t\<close>, \<^verbatim>\<open>t / w\<close> and \<^verbatim>\<open>t - w\<close> for a Python number \<open>w\<close>.\<close>

definition smul :: "tensor \<Rightarrow> fl \<Rightarrow> tensor" where
  "smul t w = tmap (\<lambda>x. fmul x w) t"

definition lsmul :: "fl \<Rightarrow> tensor \<Rightarrow> tensor" where
  "lsmul w t = tmap (\<lambda>x. fmul w x) t"

definition sdiv :: "tensor \<Rightarrow> fl \<Rightarrow> tensor" where
  "sdiv t w = tmap (\<lambda>x. fdiv x w) t"

definition ssub :: "tensor \<Rightarrow> fl \<Rightarrow> tensor" where
  "ssub t w = tmap (\<lambda>x. fsub x w) t"

definition zeros_like :: "tensor \<Rightarrow> tensor" where
  "zeros_like t = \<lparr>shape = shape t, data = replicate (prod_list (shape t)) (Fin 0)\<rparr>"

subsection \<open>Broadcasting\<close>

text \<open>
  torch aligns two shapes at their last axes; two sizes fit when they are equal or one of
  them is 1, and a missing leading axis counts as 1. \<open>bshape_rev\<close> works on the
  reversed shapes.
\<close>

fun bshape_rev :: "nat list \<Rightarrow> nat list \<Rightarrow> nat list option" where
  "bshape_rev [] ys = Some ys"
| "bshape_rev xs [] = Some xs"
| "bshape_rev (x # xs) (y # ys) =
     (if x = y \<or> y = 1 then map_option ((#) x) (bshape_rev xs ys)
      else if x = 1 then map_option ((#) y) (bshape_rev xs ys)
      else None)"

definition broadcast_shapes :: "nat list \<Rightarrow> nat list \<Rightarrow> nat list option" where
  "broadcast_shapes a b = map_option rev (bshape_rev (rev a) (rev b))"

definition pad_shape :: "nat \<Rightarrow> nat list \<Rightarrow> nat list" where
  "pad_shape n s = replicate (n - length s) 1 @ s"

text \<open>
  \<open>expand target src xs\<close>: the elements of a tensor of shape \<open>src\<close> (padded to the
  rank of \<open>target\<close>) read at shape \<open>target\<close>: an axis of size 1 is repeated.
\<close>

fun expand :: "nat list \<Rightarrow> nat list \<Rightarrow> 'a list \<Rightarrow> 'a list" where
  "expand (n # t) (m # u) xs =
     (if m = n
      then concat (map (\<lambda>i. expand t u (take (prod_list u) (drop (i * prod_list u) xs))) [0..<n])
      else concat (replicate n (expand t u xs)))"
| "expand _ _ xs = xs"

definition expand_to :: "nat list \<Rightarrow> tensor \<Rightarrow> fl list" where
  "expand_to s t = expand s (pad_shape (length s) (shape t)) (data t)"

text \<open>An elementwise operation of two tensors, \<^verbatim>\<open>a * b\<close>, \<^verbatim>\<open>a / b\<close>, \<^verbatim>\<open>a + b\<close>.\<close>

definition bop :: "(fl \<Rightarrow> fl \<Rightarrow> fl) \<Rightarrow> tensor \<Rightarrow> tensor \<Rightarrow> error + tensor" where
  "bop f a b =
     (case broadcast_shapes (shape a) (shape b) of
        None \<Rightarrow> Inl RuntimeError
      | Some s \<Rightarrow> Inr \<lparr>shape = s, data = map2 f (expand_to s a) (expand_to s b)\<rparr>)"

definition tmul :: "tensor \<Rightarrow> tensor \<Rightarrow> error + tensor" where
  "tmul = bop fmul"

definition tdiv :: "tensor \<Rightarrow> tensor \<Rightarrow> error + tensor" where
  "tdiv = bop fdiv"

definition tadd :: "tensor \<Rightarrow> tensor \<Rightarrow> error + tensor" where
  "tadd = bop fadd"

text \<open>
  The in-place \<^verbatim>\<open>a += b\<close>: \<open>b\<close> is broadcast to the shape of \<open>a\<close>, which cannot
  change.
\<close>

definition iadd :: "tensor \<Rightarrow> tensor \<Rightarrow> error + tensor" where
  "iadd a b =
     (case broadcast_shapes (shape a) (shape b) of
        None \<Rightarrow> Inl RuntimeError
      | Some s \<Rightarrow>
          if s = shape a
          then Inr \<lparr>shape = s, data = map2 fadd (data a) (expand_to s b)\<rparr>
          else Inl RuntimeError)"

subsection \<open>Reductions along the last axis\<close>

text \<open>
  \<^verbatim>\<open>dim=-1, keepdim=True\<close>: the rows along the last axis are reduced and the axis keeps
  size 1. A tensor of rank 0 is one row of one element and keeps rank 0.
\<close>

definition last_dim :: "nat list \<Rightarrow> nat" where
  "last_dim s = (if s = [] then 1 else last s)"

definition keep_shape :: "nat list \<Rightarrow> nat list" where
  "keep_shape s = (if s = [] then [] else butlast s @ [1])"

definition rows :: "nat \<Rightarrow> nat \<Rightarrow> 'a list \<Rightarrow> 'a list list" where
  "rows n d xs = map (\<lambda>i. take d (drop (i * d) xs)) [0..<n]"

definition reduce_last :: "(fl list \<Rightarrow> fl) \<Rightarrow> tensor \<Rightarrow> tensor" where
  "reduce_last f t =
     \<lparr>shape = keep_shape (shape t),
      data = map f (rows (prod_list (butlast (shape t))) (last_dim (shape t)) (data t))\<rparr>"

definition norm2 :: "fl list \<Rightarrow> fl" where
  "norm2 r = fsqrt (fsum (map (\<lambda>x. fmul x x) r))"

definition norm_last :: "tensor \<Rightarrow> tensor" where
  "norm_last = reduce_last norm2"

definition sum_last :: "tensor \<Rightarrow> tensor" where
  "sum_last = reduce_last fsum"

subsection \<open>Shape operations\<close>

text \<open>\<^verbatim>\<open>t.permute(2, 0, 1)\<close>: only a tensor of rank 3 has these three axes.\<close>

definition permute_201 :: "tensor \<Rightarrow> error + tensor" where
  "permute_201 t =
     (case shape t of
        [h, w, c] \<Rightarrow>
          Inr \<lparr>shape = [c, h, w],
               data = concat (map (\<lambda>k. map (\<lambda>p. data t ! (p * c + k)) [0..<h * w]) [0..<c])\<rparr>
      | _ \<Rightarrow> Inl RuntimeError)"

definition unsqueeze0 :: "tensor \<Rightarrow> tensor" where
  "unsqueeze0 t = \<lparr>shape = 1 # shape t, data = data t\<rparr>"

text \<open>
  \<^verbatim>\<open>torch.stack(ts)\<close>: the list must not be empty and all its tensors must have one
  shape; the result has a new first axis.
\<close>

definition stack :: "tensor list \<Rightarrow> error + tensor" where
  "stack ts =
     (case ts of
        [] \<Rightarrow> Inl RuntimeError
      | t # _ \<Rightarrow>
          if list_all (\<lambda>u. shape u = shape t) ts
          then Inr \<lparr>shape = length ts # shape t, data = concat (map data ts)\<rparr>
          else Inl RuntimeError)"

text \<open>\<^verbatim>\<open>t.view(n, -1)\<close>: \<open>n\<close> rows; the row length is inferred and must exist.\<close>

definition view_rows :: "tensor \<Rightarrow> nat \<Rightarrow> error + tensor" where
  "view_rows t n =
     (if n = 0 \<or> length (data t) mod n \<noteq> 0 then Inl RuntimeError
      else Inr \<lparr>shape = [n, length (data t) div n], data = data t\<rparr>)"

section \<open>The model object and the encoder\<close>

text \<open>
  Of the \<^verbatim>\<open>StableDiffusionXLPipeline\<close> the code touches the VAE only: it sets the VAE's
  precision, calls its encoder and reads its scaling factor. The encoder is code of the
  diffusers library; it is a field of the model, a function of the precision and of
  the prepared image which gives the mean of the latent distribution.
\<close>

datatype dtype = Float16 | BFloat16 | Float32 | Float64

record model =
  vae_dtype :: dtype
  vae_encode_mean :: "dtype \<Rightarrow> tensor \<Rightarrow> tensor"
  scaling_factor :: fl

definition vae_to :: "model \<Rightarrow> dtype \<Rightarrow> model" where
  "vae_to m d = m\<lparr>vae_dtype := d\<rparr>"

text \<open>
  Lines 25 to 31, repeated in the loop of every \<^verbatim>\<open>images_encoding*\<close> function: the
  image (height, width, channel) is scaled from [0, 255] to [-1, 1], permuted to
  channel-first, given a batch axis and encoded; the mean is multiplied by the scaling
  factor.
\<close>

definition encode_latent :: "model \<Rightarrow> tensor \<Rightarrow> error + tensor" where
  "encode_latent m img =
     (let scaled_image = sdiv img (Fin 255) in
      ebind (permute_201 (ssub (smul scaled_image (Fin 2)) (Fin 1)))
        (\<lambda>p. let permuted_image = unsqueeze0 p in
           Inr (smul (vae_encode_mean m (vae_dtype m) permuted_image) (scaling_factor m))))"

definition image_encoding :: "model \<Rightarrow> tensor \<Rightarrow> model \<times> (error + tensor)" where
  "image_encoding m img =
     (let m1 = vae_to m Float32 in
      case encode_latent m1 img of
        Inl e \<Rightarrow> (m1, Inl e)
      | Inr latent_img \<Rightarrow> (vae_to m1 Float16, Inr latent_img))"

section \<open>Linear weighted average\<close>

text \<open>
  The loop of \<^verbatim>\<open>images_encoding\<close> over \<^verbatim>\<open>zip(images, blending_weights)\<close>; the
  accumulator \<^verbatim>\<open>blended_latent_img\<close> starts as \<^verbatim>\<open>None\<close>.
\<close>

fun linear_loop :: "model \<Rightarrow> tensor option \<Rightarrow> (tensor \<times> fl) list \<Rightarrow> error + tensor option" where
  "linear_loop m blended [] = Inr blended"
| "linear_loop m blended ((img, weight) # rest) =
     (case encode_latent m img of
        Inl e \<Rightarrow> Inl e
      | Inr latent_img \<Rightarrow>
          (case blended of
             None \<Rightarrow> linear_loop m (Some (smul latent_img weight)) rest
           | Some b \<Rightarrow>
               (case iadd b (smul latent_img weight) of
                  Inl e \<Rightarrow> Inl e
                | Inr b' \<Rightarrow> linear_loop m (Some b') rest)))"

definition images_encoding ::
  "model \<Rightarrow> tensor list \<Rightarrow> fl list \<Rightarrow> model \<times> (error + tensor option)" where
  "images_encoding m images blending_weights =
     (if length images \<noteq> length blending_weights
      then (m, Inl (AssertionError ''The number of images and blending_weights must match.''))
      else if \<not> isclose (fsum blending_weights) (Fin 1)
      then (m, Inl (AssertionError ''blending_weights must sum to 1.''))
      else
        let m1 = vae_to m Float32 in
        case linear_loop m1 None (zip images blending_weights) of
          Inl e \<Rightarrow> (m1, Inl e)
        | Inr blended_latent_img \<Rightarrow> (vae_to m1 Float16, Inr blended_latent_img))"

section \<open>Weighted spherical interpolation\<close>

text \<open>
  Lines 93 to 96 of \<^verbatim>\<open>weighted_slerp\<close>: the angle \<^verbatim>\<open>omega\<close> between the unit vectors
  along the last axis of \<open>v0\<close> and of \<open>v1\<close>.
\<close>

definition slerp_omega :: "tensor \<Rightarrow> tensor \<Rightarrow> error + tensor" where
  "slerp_omega v0 v1 =
     ebind (tdiv v0 (norm_last v0)) (\<lambda>v0_norm.
     ebind (tdiv v1 (norm_last v1)) (\<lambda>v1_norm.
     ebind (tmul v0_norm v1_norm) (\<lambda>pr.
       let dot_product = sum_last pr in
       Inr (tmap facos dot_product))))"

text \<open>Lines 97 and 98: the two coefficients multiply the arguments as they were given.\<close>

definition weighted_slerp :: "fl \<Rightarrow> tensor \<Rightarrow> tensor \<Rightarrow> error + tensor" where
  "weighted_slerp weight v0 v1 =
     ebind (slerp_omega v0 v1) (\<lambda>omega.
       let sin_omega = tmap fsin omega in
       ebind (tdiv (tmap fsin (lsmul (fsub (Fin 1) weight) omega)) sin_omega) (\<lambda>c0.
       ebind (tmul c0 v0) (\<lambda>a.
       ebind (tdiv (tmap fsin (lsmul weight omega)) sin_omega) (\<lambda>c1.
       ebind (tmul c1 v1) (\<lambda>b.
       tadd a b)))))"

fun slerp_loop :: "model \<Rightarrow> tensor option \<Rightarrow> (tensor \<times> fl) list \<Rightarrow> error + tensor option" where
  "slerp_loop m blended [] = Inr blended"
| "slerp_loop m blended ((img, weight) # rest) =
     (case encode_latent m img of
        Inl e \<Rightarrow> Inl e
      | Inr latent_img \<Rightarrow>
          (case blended of
             None \<Rightarrow> slerp_loop m (Some (smul latent_img weight)) rest
           | Some b \<Rightarrow>
               (case weighted_slerp weight b latent_img of
                  Inl e \<Rightarrow> Inl e
                | Inr b' \<Rightarrow> slerp_loop m (Some b') rest)))"

definition images_encoding_slerp ::
  "model \<Rightarrow> tensor list \<Rightarrow> fl list \<Rightarrow> model \<times> (error + tensor option)" where
  "images_encoding_slerp m images blending_weights =
     (if length images \<noteq> length blending_weights
      then (m, Inl (AssertionError ''The number of images and blending_weights must match.''))
      else if \<not> isclose (fsum blending_weights) (Fin 1)
      then (m, Inl (AssertionError ''blending_weights must sum to 1.''))
      else
        let m1 = vae_to m Float32 in
        case slerp_loop m1 None (zip images blending_weights) of
          Inl e \<Rightarrow> (m1, Inl e)
        | Inr blended_latent_img \<Rightarrow> (vae_to m1 Float16, Inr blended_latent_img))"

section \<open>Barycentric interpolation\<close>

fun bary_loop :: "tensor \<Rightarrow> (tensor \<times> fl) list \<Rightarrow> error + tensor" where
  "bary_loop blended_latent [] = Inr blended_latent"
| "bary_loop blended_latent ((latent, weight) # rest) =
     (case iadd blended_latent (smul latent weight) of
        Inl e \<Rightarrow> Inl e
      | Inr b' \<Rightarrow> bary_loop b' rest)"

definition barycentric_interpolation :: "tensor list \<Rightarrow> fl list \<Rightarrow> error + tensor" where
  "barycentric_interpolation latents weights =
     (if length latents \<noteq> length weights
      then Inl (AssertionError ''Number of latents and weights must match.'')
      else if \<not> isclose (fsum weights) (Fin 1)
      then Inl (AssertionError ''Weights must sum to 1.'')
      else
        case latents of
          [] \<Rightarrow> Inl IndexError
        | l0 # _ \<Rightarrow> bary_loop (zeros_like l0) (zip latents weights))"

text \<open>The loop that encodes every image and appends its latent to a list.\<close>

fun encode_all :: "model \<Rightarrow> tensor list \<Rightarrow> error + tensor list" where
  "encode_all m [] = Inr []"
| "encode_all m (img # rest) =
     (case encode_latent m img of
        Inl e \<Rightarrow> Inl e
      | Inr latent_img \<Rightarrow>
          (case encode_all m rest of
             Inl e \<Rightarrow> Inl e
           | Inr ls \<Rightarrow> Inr (latent_img # ls)))"

definition images_encoding_barycentric ::
  "model \<Rightarrow> tensor list \<Rightarrow> fl list \<Rightarrow> model \<times> (error + tensor)" where
  "images_encoding_barycentric m images blending_weights =
     (if length images \<noteq> length blending_weights
      then (m, Inl (AssertionError ''The number of images and blending_weights must match.''))
      else if \<not> isclose (fsum blending_weights) (Fin 1)
      then (m, Inl (AssertionError ''blending_weights must sum to 1.''))
      else
        let m1 = vae_to m Float32 in
        case encode_all m1 images of
          Inl e \<Rightarrow> (m1, Inl e)
        | Inr latent_representations \<Rightarrow>
            (case barycentric_interpolation latent_representations blending_weights of
               Inl e \<Rightarrow> (m1, Inl e)
             | Inr blended_latent_img \<Rightarrow> (vae_to m1 Float16, Inr blended_latent_img)))"

section \<open>Radial basis function interpolation\<close>

text \<open>\<^verbatim>\<open>torch.exp(-(epsilon * distances) ** 2)\<close>: the power binds before the minus.\<close>

definition gaussian_rbf :: "tensor \<Rightarrow> fl \<Rightarrow> tensor" where
  "gaussian_rbf distances epsilon =
     tmap (\<lambda>d. fexp (fneg (let z = fmul epsilon d in fmul z z))) distances"

text \<open>
  \<^verbatim>\<open>torch.cdist(x1, x2, p=2)\<close> of two matrices whose rows have one length: the
  Euclidean distance of every row of \<open>x1\<close> to every row of \<open>x2\<close>. The code calls it
  on matrices only; the batched form for higher ranks is not modelled.
\<close>

definition dist2 :: "fl list \<Rightarrow> fl list \<Rightarrow> fl" where
  "dist2 a b = fsqrt (fsum (map2 (\<lambda>x y. let z = fsub x y in fmul z z) a b))"

definition cdist :: "tensor \<Rightarrow> tensor \<Rightarrow> error + tensor" where
  "cdist x1 x2 =
     (case (shape x1, shape x2) of
        ([p, d], [r, d']) \<Rightarrow>
          if d = d'
          then Inr \<lparr>shape = [p, r],
                    data = concat (map (\<lambda>a. map (dist2 a) (rows r d (data x2))) (rows p d (data x1)))\<rparr>
          else Inl RuntimeError
      | _ \<Rightarrow> Inl RuntimeError)"

text \<open>
  \<^verbatim>\<open>t.sum(dim=1, keepdim=True)\<close> of a matrix: axis 1 is its last axis. The code calls
  it on the square kernel matrix only.
\<close>

definition sum_dim1 :: "tensor \<Rightarrow> error + tensor" where
  "sum_dim1 t = (case shape t of [n, k] \<Rightarrow> Inr (sum_last t) | _ \<Rightarrow> Inl RuntimeError)"

text \<open>
  \<^verbatim>\<open>torch.einsum('ij,i...->j...', a, x)\<close>: \<open>a\<close> is a matrix of shape (I, J), \<open>x\<close>
  has shape (I, ...); the index \<open>i\<close> is summed over and the result has shape (J, ...):
  its slice \<open>j\<close> is the sum over \<open>i\<close> of \<open>a[i][j] * x[i]\<close>.
\<close>

definition einsum_ij_i_j :: "tensor \<Rightarrow> tensor \<Rightarrow> error + tensor" where
  "einsum_ij_i_j a x =
     (case (shape a, shape x) of
        ([i, j], i' # rest) \<Rightarrow>
          if i = i'
          then
            let ra = rows i j (data a);
                rx = rows i (prod_list rest) (data x)
            in Inr \<lparr>shape = j # rest,
                     data = concat (map (\<lambda>jj. map (\<lambda>r. fsum (map2 (\<lambda>arow xrow. fmul (arow ! jj) (xrow ! r)) ra rx))
                                                  [0..<prod_list rest])
                                        [0..<j])\<rparr>
          else Inl RuntimeError
      | _ \<Rightarrow> Inl RuntimeError)"

definition rbf_interpolation :: "tensor list \<Rightarrow> fl list \<Rightarrow> fl \<Rightarrow> error + tensor" where
  "rbf_interpolation latents weights epsilon =
     (if length latents \<noteq> length weights
      then Inl (AssertionError ''Number of latents and weights must match.'')
      else if \<not> isclose (fsum weights) (Fin 1)
      then Inl (AssertionError ''Weights must sum to 1.'')
      else
        ebind (stack latents) (\<lambda>latent_stack.
        ebind (view_rows latent_stack (length latents)) (\<lambda>flat.
        ebind (cdist flat flat) (\<lambda>distances.
          let rbf_weights = gaussian_rbf distances epsilon in
          ebind (sum_dim1 rbf_weights) (\<lambda>row_sums.
          ebind (tdiv rbf_weights row_sums) (\<lambda>rbf_weights'.
          einsum_ij_i_j rbf_weights' latent_stack))))))"

definition images_encoding_rbf ::
  "model \<Rightarrow> tensor list \<Rightarrow> fl list \<Rightarrow> fl \<Rightarrow> model \<times> (error + tensor)" where
  "images_encoding_rbf m images blending_weights epsilon =
     (if length images \<noteq> length blending_weights
      then (m, Inl (AssertionError ''The number of images and blending_weights must match.''))
      else if \<not> isclose (fsum blending_weights) (Fin 1)
      then (m, Inl (AssertionError ''blending_weights must sum to 1.''))
      else
        let m1 = vae_to m Float32 in
        case encode_all m1 images of
          Inl e \<Rightarrow> (m1, Inl e)
        | Inr latent_representations \<Rightarrow>
            (case rbf_interpolation latent_representations blending_weights epsilon of
               Inl e \<Rightarrow> (m1, Inl e)
             | Inr blended_latent_img \<Rightarrow> (vae_to m1 Float16, Inr blended_latent_img)))"

section \<open>Notions used by the properties\<close>

text \<open>
  The two conditions every blend operation asserts first: as many weights as images (or
  latents), and a sum that \<^verbatim>\<open>np.isclose\<close> accepts as 1.
\<close>

definition valid_weights :: "nat \<Rightarrow> fl list \<Rightarrow> bool" where
  "valid_weights n ws = (n = length ws \<and> isclose (fsum ws) (Fin 1))"

text \<open>
  The model an \<^verbatim>\<open>images_encoding*\<close> function leaves behind, by its outcome: untouched
  when an assert failed, at float32 when a later step raised, at float16 when it
  returned.
\<close>

fun model_after :: "model \<Rightarrow> error + 'a \<Rightarrow> model" where
  "model_after m (Inl (AssertionError msg)) = m"
| "model_after m (Inl e) = vae_to m Float32"
| "model_after m (Inr r) = vae_to m Float16"

text \<open>
  A model and an image to run the functions on: the encoder of \<open>identity_model\<close>
  returns the prepared image, so that the latent of an image is its prepared form.
\<close>

definition pixel_image :: tensor where
  "pixel_image = \<lparr>shape = [1, 1, 3], data = [Fin 0, Fin 255, Fin 51]\<rparr>"

definition identity_model :: "dtype \<Rightarrow> model" where
  "identity_model d = \<lparr>vae_dtype = d, vae_encode_mean = (\<lambda>p x. x), scaling_factor = Fin 1\<rparr>"

text \<open>A number that is neither an infinity nor NaN.\<close>

fun is_fin :: "fl \<Rightarrow> bool" where
  "is_fin (Fin a) = True"
| "is_fin _ = False"

text \<open>
  The weighted slerp in the specification's words, for one pair of rows along the last
  axis: the angle comes from the rows divided by their norms, the result is
  \<open>[sin((1 - t) \<omega>) / sin \<omega>] * r0 + [sin(t \<omega>) / sin \<omega>] * r1\<close> on the rows as given.
\<close>

definition unit_row :: "fl list \<Rightarrow> fl list" where
  "unit_row r = map (\<lambda>x. fdiv x (norm2 r)) r"

definition row_omega :: "fl list \<Rightarrow> fl list \<Rightarrow> fl" where
  "row_omega r0 r1 = facos (fsum (map2 fmul (unit_row r0) (unit_row r1)))"

definition slerp_row :: "fl \<Rightarrow> fl list \<Rightarrow> fl list \<Rightarrow> fl list" where
  "slerp_row t r0 r1 =
     (let omega = row_omega r0 r1;
          c0 = fdiv (fsin (fmul (fsub (Fin 1) t) omega)) (fsin omega);
          c1 = fdiv (fsin (fmul t omega)) (fsin omega)
      in map2 fadd (map (fmul c0) r0) (map (fmul c1) r1))"

text \<open>
  The slerp blend in the specification's words: a fold from the left over the latents
  after the first, which combines the running result with the next latent by the
  weighted slerp at that latent's weight.
\<close>

fun slerp_fold :: "tensor \<Rightarrow> (tensor \<times> fl) list \<Rightarrow> error + tensor" where
  "slerp_fold r [] = Inr r"
| "slerp_fold r ((l, w) # rest) =
     (case weighted_slerp w r l of Inl e \<Rightarrow> Inl e | Inr r' \<Rightarrow> slerp_fold r' rest)"

text \<open>A finite number other than zero.\<close>

fun nonzero_fin :: "fl \<Rightarrow> bool" where
  "nonzero_fin (Fin a) = (a \<noteq> 0)"
| "nonzero_fin _ = False"

section \<open>Basic facts\<close>

lemma fadd_zero_left [simp]: "fadd (Fin 0) x = x"
  by (cases x) simp_all

lemma fadd_zero_right [simp]: "fadd x (Fin 0) = x"
  by (cases x) simp_all

lemma fmul_one_left [simp]: "fmul (Fin 1) x = x"
  by (cases x) (simp_all add: signed_inf_def)

lemma fmul_one_right [simp]: "fmul x (Fin 1) = x"
  by (cases x) (simp_all add: signed_inf_def)

lemma fsum_Nil [simp]: "fsum [] = Fin 0"
  by (simp add: fsum_def)

lemma fsum_Cons: "fsum (x # xs) = foldl fadd x xs"
  by (simp add: fsum_def)

lemma fsum_single [simp]: "fsum [x] = x"
  by (simp add: fsum_def)

lemma not_close_zero_one [simp]: "\<not> isclose (Fin 0) (Fin 1)"
  by (simp add: atol_def rtol_def)

lemmas eval_defs = valid_weights_def atol_def rtol_def fsum_Cons vae_to_def encode_latent_def Let_def ebind_def
      permute_201_def sdiv_def smul_def lsmul_def ssub_def tmap_def unsqueeze0_def fsub_def upt_rec
      pixel_image_def identity_model_def signed_inf_def


subsection \<open>No operation but an assert raises AssertionError\<close>

lemma is_assertion_Inl_iff: "is_assertion (Inl e :: error + 'a) = (\<exists>msg. e = AssertionError msg)"
  by (cases e) simp_all

lemma ebind_not_assertion:
  "\<not> is_assertion r \<Longrightarrow> (\<And>x. \<not> is_assertion (f x)) \<Longrightarrow> \<not> is_assertion (ebind r f)"
  by (cases r) (simp_all add: ebind_def is_assertion_Inl_iff)

lemma bop_not_assertion [simp]: "\<not> is_assertion (bop f a b)"
  by (simp add: bop_def split: option.splits)

lemma iadd_not_assertion [simp]: "\<not> is_assertion (iadd a b)"
  by (simp add: iadd_def split: option.splits)

lemma permute_201_not_assertion [simp]: "\<not> is_assertion (permute_201 t)"
  by (simp add: permute_201_def split: list.splits)

lemma encode_latent_not_assertion [simp]: "\<not> is_assertion (encode_latent m img)"
  by (simp add: encode_latent_def Let_def ebind_not_assertion)

lemma slerp_omega_not_assertion [simp]: "\<not> is_assertion (slerp_omega a b)"
  by (simp add: slerp_omega_def Let_def tdiv_def tmul_def ebind_not_assertion)

lemma weighted_slerp_not_assertion [simp]: "\<not> is_assertion (weighted_slerp w a b)"
  by (simp add: weighted_slerp_def Let_def tdiv_def tmul_def tadd_def ebind_not_assertion)


lemma linear_loop_not_assertion [simp]: "\<not> is_assertion (linear_loop m acc xs)"
proof (induction m acc xs rule: linear_loop.induct)
  case (1 m blended)
  then show ?case by simp
next
  case (2 m blended img weight rest)
  have e: "\<not> is_assertion (encode_latent m img)" by simp
  show ?case
  proof (cases "encode_latent m img")
    case (Inl err)
    with e show ?thesis by (simp add: is_assertion_Inl_iff)
  next
    case (Inr latent_img)
    show ?thesis
    proof (cases blended)
      case None
      with Inr 2 show ?thesis by simp
    next
      case (Some b)
      have i: "\<not> is_assertion (iadd b (smul latent_img weight))" by simp
      show ?thesis
      proof (cases "iadd b (smul latent_img weight)")
        case (Inl err)
        with i Inr Some show ?thesis by (simp add: is_assertion_Inl_iff)
      next
        case (Inr b')
        with \<open>encode_latent m img = Inr latent_img\<close> Some 2 show ?thesis by simp
      qed
    qed
  qed
qed

lemma slerp_loop_not_assertion [simp]: "\<not> is_assertion (slerp_loop m acc xs)"
proof (induction m acc xs rule: slerp_loop.induct)
  case (1 m blended)
  then show ?case by simp
next
  case (2 m blended img weight rest)
  have e: "\<not> is_assertion (encode_latent m img)" by simp
  show ?case
  proof (cases "encode_latent m img")
    case (Inl err)
    with e show ?thesis by (simp add: is_assertion_Inl_iff)
  next
    case (Inr latent_img)
    show ?thesis
    proof (cases blended)
      case None
      with Inr 2 show ?thesis by simp
    next
      case (Some b)
      have i: "\<not> is_assertion (weighted_slerp weight b latent_img)" by simp
      show ?thesis
      proof (cases "weighted_slerp weight b latent_img")
        case (Inl err)
        with i Inr Some show ?thesis by (simp add: is_assertion_Inl_iff)
      next
        case (Inr b')
        with \<open>encode_latent m img = Inr latent_img\<close> Some 2 show ?thesis by simp
      qed
    qed
  qed
qed

lemma bary_loop_not_assertion [simp]: "\<not> is_assertion (bary_loop acc xs)"
proof (induction acc xs rule: bary_loop.induct)
  case (1 b)
  then show ?case by simp
next
  case (2 b latent weight rest)
  have i: "\<not> is_assertion (iadd b (smul latent weight))" by simp
  show ?case
  proof (cases "iadd b (smul latent weight)")
    case (Inl err)
    with i show ?thesis by (simp add: is_assertion_Inl_iff)
  next
    case (Inr b')
    with 2 show ?thesis by simp
  qed
qed

lemma encode_all_not_assertion [simp]: "\<not> is_assertion (encode_all m imgs)"
proof (induction imgs)
  case Nil
  then show ?case by simp
next
  case (Cons img rest)
  have e: "\<not> is_assertion (encode_latent m img)" by simp
  show ?case
  proof (cases "encode_latent m img")
    case (Inl err)
    with e show ?thesis by (simp add: is_assertion_Inl_iff)
  next
    case (Inr l)
    with Cons show ?thesis
      by (cases "encode_all m rest") (simp_all add: is_assertion_Inl_iff)
  qed
qed

lemma stack_not_assertion [simp]: "\<not> is_assertion (stack ts)"
  by (simp add: stack_def split: list.splits)

lemma view_rows_not_assertion [simp]: "\<not> is_assertion (view_rows t n)"
  by (simp add: view_rows_def)

lemma cdist_not_assertion [simp]: "\<not> is_assertion (cdist a b)"
  by (simp add: cdist_def split: list.splits)

lemma sum_dim1_not_assertion [simp]: "\<not> is_assertion (sum_dim1 t)"
  by (simp add: sum_dim1_def split: list.splits)

lemma einsum_not_assertion [simp]: "\<not> is_assertion (einsum_ij_i_j a x)"
  by (simp add: einsum_ij_i_j_def Let_def split: list.splits)

lemma barycentric_assertion_iff:
  "is_assertion (barycentric_interpolation latents ws) = (\<not> valid_weights (length latents) ws)"
  by (cases latents) (auto simp: barycentric_interpolation_def valid_weights_def)

lemma rbf_assertion_iff:
  "is_assertion (rbf_interpolation latents ws eps) = (\<not> valid_weights (length latents) ws)"
  by (simp add: rbf_interpolation_def valid_weights_def Let_def tdiv_def ebind_not_assertion)

lemma images_encoding_assertion_iff:
  "is_assertion (snd (images_encoding m images ws)) = (\<not> valid_weights (length images) ws)"
proof -
  have "\<not> is_assertion (linear_loop (vae_to m Float32) None (zip images ws))" by simp
  then show ?thesis
    by (cases "linear_loop (vae_to m Float32) None (zip images ws)")
       (auto simp: images_encoding_def valid_weights_def Let_def)
qed

lemma images_encoding_slerp_assertion_iff:
  "is_assertion (snd (images_encoding_slerp m images ws)) = (\<not> valid_weights (length images) ws)"
proof -
  have "\<not> is_assertion (slerp_loop (vae_to m Float32) None (zip images ws))" by simp
  then show ?thesis
    by (cases "slerp_loop (vae_to m Float32) None (zip images ws)")
       (auto simp: images_encoding_slerp_def valid_weights_def Let_def)
qed


lemma encode_all_length: "encode_all m imgs = Inr ls \<Longrightarrow> length ls = length imgs"
proof (induction imgs arbitrary: ls)
  case Nil
  then show ?case by simp
next
  case (Cons img rest)
  then show ?case
    by (auto split: sum.splits)
qed

lemma images_encoding_barycentric_assertion_iff:
  "is_assertion (snd (images_encoding_barycentric m images ws)) = (\<not> valid_weights (length images) ws)"
proof (cases "valid_weights (length images) ws")
  case False
  then show ?thesis
    by (auto simp: images_encoding_barycentric_def valid_weights_def)
next
  case True
  have e: "\<not> is_assertion (encode_all (vae_to m Float32) images)" by simp
  show ?thesis
  proof (cases "encode_all (vae_to m Float32) images")
    case (Inl err)
    with e True show ?thesis
      by (auto simp: images_encoding_barycentric_def valid_weights_def Let_def is_assertion_Inl_iff)
  next
    case (Inr ls)
    then have "length ls = length images" by (rule encode_all_length)
    with True have "\<not> is_assertion (barycentric_interpolation ls ws)"
      by (simp add: barycentric_assertion_iff)
    with Inr True show ?thesis
      by (cases "barycentric_interpolation ls ws")
         (auto simp: images_encoding_barycentric_def valid_weights_def Let_def is_assertion_Inl_iff)
  qed
qed

lemma images_encoding_rbf_assertion_iff:
  "is_assertion (snd (images_encoding_rbf m images ws eps)) = (\<not> valid_weights (length images) ws)"
proof (cases "valid_weights (length images) ws")
  case False
  then show ?thesis
    by (auto simp: images_encoding_rbf_def valid_weights_def)
next
  case True
  have e: "\<not> is_assertion (encode_all (vae_to m Float32) images)" by simp
  show ?thesis
  proof (cases "encode_all (vae_to m Float32) images")
    case (Inl err)
    with e True show ?thesis
      by (auto simp: images_encoding_rbf_def valid_weights_def Let_def is_assertion_Inl_iff)
  next
    case (Inr ls)
    then have "length ls = length images" by (rule encode_all_length)
    with True have "\<not> is_assertion (rbf_interpolation ls ws eps)"
      by (simp add: rbf_assertion_iff)
    with Inr True show ?thesis
      by (cases "rbf_interpolation ls ws eps")
         (auto simp: images_encoding_rbf_def valid_weights_def Let_def is_assertion_Inl_iff)
  qed
qed


lemma model_after_not_assertion:
  "\<not> is_assertion (Inl e :: error + 'a) \<Longrightarrow> model_after m (Inl e :: error + 'b) = vae_to m Float32"
  by (cases e) simp_all

lemma vae_to_twice [simp]: "vae_to (vae_to m a) b = vae_to m b"
  by (simp add: vae_to_def)

lemma images_encoding_model:
  "fst (images_encoding m images ws) = model_after m (snd (images_encoding m images ws))"
proof -
  have "\<not> is_assertion (linear_loop (vae_to m Float32) None (zip images ws))" by simp
  then show ?thesis
    by (cases "linear_loop (vae_to m Float32) None (zip images ws)")
       (auto simp: images_encoding_def Let_def model_after_not_assertion)
qed

lemma images_encoding_slerp_model:
  "fst (images_encoding_slerp m images ws) = model_after m (snd (images_encoding_slerp m images ws))"
proof -
  have "\<not> is_assertion (slerp_loop (vae_to m Float32) None (zip images ws))" by simp
  then show ?thesis
    by (cases "slerp_loop (vae_to m Float32) None (zip images ws)")
       (auto simp: images_encoding_slerp_def Let_def model_after_not_assertion)
qed

lemma images_encoding_barycentric_model:
  "fst (images_encoding_barycentric m images ws) =
     model_after m (snd (images_encoding_barycentric m images ws))"
proof (cases "valid_weights (length images) ws")
  case False
  then show ?thesis
    by (auto simp: images_encoding_barycentric_def valid_weights_def)
next
  case True
  have e: "\<not> is_assertion (encode_all (vae_to m Float32) images)" by simp
  show ?thesis
  proof (cases "encode_all (vae_to m Float32) images")
    case (Inl err)
    with e True show ?thesis
      by (auto simp: images_encoding_barycentric_def valid_weights_def Let_def model_after_not_assertion)
  next
    case (Inr ls)
    then have "length ls = length images" by (rule encode_all_length)
    with True have "\<not> is_assertion (barycentric_interpolation ls ws)"
      by (simp add: barycentric_assertion_iff)
    with Inr True show ?thesis
      by (cases "barycentric_interpolation ls ws")
         (auto simp: images_encoding_barycentric_def valid_weights_def Let_def model_after_not_assertion)
  qed
qed

lemma images_encoding_rbf_model:
  "fst (images_encoding_rbf m images ws eps) =
     model_after m (snd (images_encoding_rbf m images ws eps))"
proof (cases "valid_weights (length images) ws")
  case False
  then show ?thesis
    by (auto simp: images_encoding_rbf_def valid_weights_def)
next
  case True
  have e: "\<not> is_assertion (encode_all (vae_to m Float32) images)" by simp
  show ?thesis
  proof (cases "encode_all (vae_to m Float32) images")
    case (Inl err)
    with e True show ?thesis
      by (auto simp: images_encoding_rbf_def valid_weights_def Let_def model_after_not_assertion)
  next
    case (Inr ls)
    then have "length ls = length images" by (rule encode_all_length)
    with True have "\<not> is_assertion (rbf_interpolation ls ws eps)"
      by (simp add: rbf_assertion_iff)
    with Inr True show ?thesis
      by (cases "rbf_interpolation ls ws eps")
         (auto simp: images_encoding_rbf_def valid_weights_def Let_def model_after_not_assertion)
  qed
qed

lemma vae_to_same_iff: "(vae_to m d = m) = (vae_dtype m = d)"
proof
  assume "vae_to m d = m"
  then have "vae_dtype (vae_to m d) = vae_dtype m" by simp
  then show "vae_dtype m = d" by (simp add: vae_to_def)
next
  assume "vae_dtype m = d"
  then show "vae_to m d = m" by (simp add: vae_to_def)
qed

section \<open>Input validation\<close>

text \<open>
  Claim C9. Called with an empty list of images (or latents) and an empty list of weights,
  every blend operation fails with the AssertionError of its second assert: the lengths
  are equal, but the sum of no weights is 0, which is not close to 1. The model comes
  back untouched, so nothing ran before the failure, and no other error and no value
  is returned.
\<close>

theorem empty_input_assertion:
  "images_encoding m [] [] = (m, Inl (AssertionError ''blending_weights must sum to 1.''))
   \<and> images_encoding_slerp m [] [] = (m, Inl (AssertionError ''blending_weights must sum to 1.''))
   \<and> images_encoding_barycentric m [] [] = (m, Inl (AssertionError ''blending_weights must sum to 1.''))
   \<and> images_encoding_rbf m [] [] epsilon = (m, Inl (AssertionError ''blending_weights must sum to 1.''))
   \<and> barycentric_interpolation [] [] = Inl (AssertionError ''Weights must sum to 1.'')
   \<and> rbf_interpolation [] [] epsilon = Inl (AssertionError ''Weights must sum to 1.'')"
  by (simp add: images_encoding_def images_encoding_slerp_def images_encoding_barycentric_def
      images_encoding_rbf_def barycentric_interpolation_def rbf_interpolation_def atol_def rtol_def)

theorem empty_input_assertion_witness:
  "images_encoding (identity_model Float16) [] [] =
     (identity_model Float16, Inl (AssertionError ''blending_weights must sum to 1.''))
   \<and> rbf_interpolation [] [] (Fin 1) = Inl (AssertionError ''Weights must sum to 1.'')"
  using empty_input_assertion [of "identity_model Float16" "Fin 1"] by simp

text \<open>
  Claim C3, amended. Every blend operation fails with an AssertionError exactly when the
  number of weights differs from the number of images (or latents) or the sum of the
  weights is not close to 1 as \<^verbatim>\<open>np.isclose\<close> judges it, that is when
  \<open>\<bar>sum - 1\<bar>\<close> exceeds \<open>atol + rtol * 1 = 1.001e-5\<close> (or the sum is not finite); on
  that failure the model is untouched, so no tensor computation ran. In every other case
  the operation goes on to the tensor computation and fails, if at all, with another
  error.
\<close>

theorem validation_iff:
  "is_assertion (snd (images_encoding m images ws)) = (\<not> valid_weights (length images) ws)
   \<and> is_assertion (snd (images_encoding_slerp m images ws)) = (\<not> valid_weights (length images) ws)
   \<and> is_assertion (snd (images_encoding_barycentric m images ws)) = (\<not> valid_weights (length images) ws)
   \<and> is_assertion (snd (images_encoding_rbf m images ws epsilon)) = (\<not> valid_weights (length images) ws)
   \<and> is_assertion (barycentric_interpolation latents ws) = (\<not> valid_weights (length latents) ws)
   \<and> is_assertion (rbf_interpolation latents ws epsilon) = (\<not> valid_weights (length latents) ws)
   \<and> (\<not> valid_weights (length images) ws \<longrightarrow>
        fst (images_encoding m images ws) = m
        \<and> fst (images_encoding_slerp m images ws) = m
        \<and> fst (images_encoding_barycentric m images ws) = m
        \<and> fst (images_encoding_rbf m images ws epsilon) = m)"
proof -
  have "\<not> valid_weights (length images) ws \<Longrightarrow> fst (images_encoding m images ws) = m"
    by (auto simp: images_encoding_def valid_weights_def)
  moreover have "\<not> valid_weights (length images) ws \<Longrightarrow> fst (images_encoding_slerp m images ws) = m"
    by (auto simp: images_encoding_slerp_def valid_weights_def)
  moreover have "\<not> valid_weights (length images) ws \<Longrightarrow> fst (images_encoding_barycentric m images ws) = m"
    by (auto simp: images_encoding_barycentric_def valid_weights_def)
  moreover have "\<not> valid_weights (length images) ws \<Longrightarrow> fst (images_encoding_rbf m images ws epsilon) = m"
    by (auto simp: images_encoding_rbf_def valid_weights_def)
  ultimately show ?thesis
    by (simp add: images_encoding_assertion_iff images_encoding_slerp_assertion_iff
        images_encoding_barycentric_assertion_iff images_encoding_rbf_assertion_iff
        barycentric_assertion_iff rbf_assertion_iff)
qed

theorem validation_iff_witness:
  "is_assertion (snd (images_encoding (identity_model Float16) [pixel_image, pixel_image] [Fin (4 / 10), Fin (4 / 10)]))
   \<and> fst (images_encoding (identity_model Float16) [pixel_image, pixel_image] [Fin (4 / 10), Fin (4 / 10)]) =
       identity_model Float16
   \<and> is_assertion (rbf_interpolation [pixel_image, pixel_image] [Fin (4 / 10), Fin (4 / 10)] (Fin 1))
   \<and> is_assertion (barycentric_interpolation [pixel_image] [Fin (1 / 2), Fin (1 / 2)])
   \<and> \<not> is_assertion (barycentric_interpolation [pixel_image, pixel_image] [Fin (3 / 10), Fin (7 / 10)])"
  using validation_iff [of "identity_model Float16" "[pixel_image, pixel_image]" "[Fin (4 / 10), Fin (4 / 10)]"
      "Fin 1" "[pixel_image, pixel_image]"]
    validation_iff [of "identity_model Float16" "[pixel_image]" "[Fin (1 / 2), Fin (1 / 2)]"
      "Fin 1" "[pixel_image]"]
    validation_iff [of "identity_model Float16" "[pixel_image, pixel_image]" "[Fin (3 / 10), Fin (7 / 10)]"
      "Fin 1" "[pixel_image, pixel_image]"]
  by (simp add: valid_weights_def atol_def rtol_def fsum_Cons)

text \<open>
  The tolerance is not 1e-6: the single weight 1.000005 differs from 1 by 5e-6, more
  than 1e-6, and is accepted.
\<close>

theorem tolerance_counterexample:
  "\<not> (is_assertion (barycentric_interpolation [\<lparr>shape = [1], data = [Fin 1]\<rparr>] [Fin (1000005 / 1000000)])
       = (length [\<lparr>shape = [1], data = [Fin 1]\<rparr>] \<noteq> length [Fin (1000005 / 1000000)]
          \<or> 1 / 10 ^ 6 < \<bar>1000005 / 1000000 - (1::real)\<bar>))"
  by (simp add: barycentric_assertion_iff valid_weights_def atol_def rtol_def)

section \<open>The model object\<close>

text \<open>
  Claim C8, amended. An \<^verbatim>\<open>images_encoding*\<close> function changes nothing of the model
  but the precision of its VAE: the model is untouched when an assert fails, the
  precision is float32 when a later step raises, and it is float16, whatever it was on
  entry, when the function returns a value. So a call that returns leaves the model in
  the state it had on entry exactly when the VAE's precision was float16 on entry.
\<close>

theorem model_state_after:
  "fst (images_encoding m images ws) = model_after m (snd (images_encoding m images ws))
   \<and> fst (images_encoding_slerp m images ws) = model_after m (snd (images_encoding_slerp m images ws))
   \<and> fst (images_encoding_barycentric m images ws) =
       model_after m (snd (images_encoding_barycentric m images ws))
   \<and> fst (images_encoding_rbf m images ws epsilon) =
       model_after m (snd (images_encoding_rbf m images ws epsilon))
   \<and> (model_after m (Inr r) = m) = (vae_dtype m = Float16)"
  by (simp add: images_encoding_model images_encoding_slerp_model images_encoding_barycentric_model
      images_encoding_rbf_model vae_to_same_iff)

theorem model_state_after_witness:
  "images_encoding (identity_model Float16) [pixel_image] [Fin 1] =
     (identity_model Float16,
      Inr (Some \<lparr>shape = [1, 3, 1, 1], data = [Fin (- 1), Fin 1, Fin (- (3 / 5))]\<rparr>))"
  using model_state_after [of "identity_model Float16" "[pixel_image]" "[Fin 1]" "Fin 1" "()"]
  by (simp add: images_encoding_def eval_defs)

text \<open>
  A model whose VAE is at float32 on entry is at float16 after a call on a valid input.
\<close>

theorem precision_counterexample:
  "valid_weights (length [pixel_image]) [Fin 1]
   \<and> snd (images_encoding (identity_model Float32) [pixel_image] [Fin 1]) =
       Inr (Some \<lparr>shape = [1, 3, 1, 1], data = [Fin (- 1), Fin 1, Fin (- (3 / 5))]\<rparr>)
   \<and> vae_dtype (identity_model Float32) = Float32
   \<and> vae_dtype (fst (images_encoding (identity_model Float32) [pixel_image] [Fin 1])) = Float16
   \<and> fst (images_encoding (identity_model Float32) [pixel_image] [Fin 1]) \<noteq> identity_model Float32"
  by (simp add: images_encoding_def eval_defs)

section \<open>The RBF blend\<close>

text \<open>
  Claim C2. For every list of N latents (or images), every epsilon and every two weight
  vectors of length N whose sums are close to 1, the RBF blend returns the same result
  for both: the weights are read by the two asserts only.
\<close>

theorem rbf_ignores_weights:
  assumes "valid_weights n w" and "valid_weights n w'"
    and "length latents = n" and "length images = n"
  shows "rbf_interpolation latents w epsilon = rbf_interpolation latents w' epsilon
         \<and> images_encoding_rbf m images w epsilon = images_encoding_rbf m images w' epsilon"
proof
  show l: "rbf_interpolation latents w epsilon = rbf_interpolation latents w' epsilon"
    using assms by (simp add: rbf_interpolation_def valid_weights_def)
  show "images_encoding_rbf m images w epsilon = images_encoding_rbf m images w' epsilon"
  proof (cases "encode_all (vae_to m Float32) images")
    case (Inl err)
    with assms show ?thesis
      by (simp add: images_encoding_rbf_def valid_weights_def Let_def)
  next
    case (Inr ls)
    then have "length ls = n" using assms(4) by (simp add: encode_all_length)
    with assms have "rbf_interpolation ls w epsilon = rbf_interpolation ls w' epsilon"
      by (simp add: rbf_interpolation_def valid_weights_def)
    with Inr assms show ?thesis
      by (simp add: images_encoding_rbf_def valid_weights_def Let_def)
  qed
qed

theorem rbf_ignores_weights_witness:
  "valid_weights 2 [Fin (3 / 10), Fin (7 / 10)] \<and> valid_weights 2 [Fin (1 / 2), Fin (1 / 2)]
   \<and> rbf_interpolation [\<lparr>shape = [1], data = [Fin 1]\<rparr>, \<lparr>shape = [1], data = [Fin 3]\<rparr>]
         [Fin (3 / 10), Fin (7 / 10)] (Fin 1)
     = rbf_interpolation [\<lparr>shape = [1], data = [Fin 1]\<rparr>, \<lparr>shape = [1], data = [Fin 3]\<rparr>]
         [Fin (1 / 2), Fin (1 / 2)] (Fin 1)"
  using rbf_ignores_weights [of 2 "[Fin (3 / 10), Fin (7 / 10)]" "[Fin (1 / 2), Fin (1 / 2)]"
      "[\<lparr>shape = [1], data = [Fin 1]\<rparr>, \<lparr>shape = [1], data = [Fin 3]\<rparr>]"
      "[pixel_image, pixel_image]" "Fin 1" "identity_model Float16"]
  by (simp add: valid_weights_def atol_def rtol_def fsum_Cons)

section \<open>Facts about rows and broadcasting\<close>

subsection \<open>Rows\<close>

lemma length_rows [simp]: "length (rows n d xs) = n"
  by (simp add: rows_def)

lemma rows_0 [simp]: "rows 0 d xs = []"
  by (simp add: rows_def)

lemma rows_Suc: "rows (Suc n) d xs = take d xs # rows n d (drop d xs)"
proof -
  have "[0..<Suc n] = 0 # map Suc [0..<n]"
    by (simp add: upt_conv_Cons map_Suc_upt del: upt_Suc)
  then have "rows (Suc n) d xs =
      take d (drop (0 * d) xs) # map (\<lambda>i. take d (drop (Suc i * d) xs)) [0..<n]"
    unfolding rows_def by (simp add: comp_def del: upt_Suc)
  also have "map (\<lambda>i. take d (drop (Suc i * d) xs)) [0..<n] = rows n d (drop d xs)"
    by (simp add: rows_def add.commute)
  finally show ?thesis by simp
qed

lemma rows_concat: "\<forall>r\<in>set rs. length r = d \<Longrightarrow> rows (length rs) d (concat rs) = rs"
  by (induction rs) (simp_all add: rows_Suc)

lemma concat_rows: "length xs = n * d \<Longrightarrow> concat (rows n d xs) = xs"
  by (induction n arbitrary: xs) (simp_all add: rows_Suc)

lemma rows_row_length: "length xs = n * d \<Longrightarrow> r \<in> set (rows n d xs) \<Longrightarrow> length r = d"
proof (induction n arbitrary: xs)
  case 0
  then show ?case by simp
next
  case (Suc n)
  from Suc.prems(2) have "r = take d xs \<or> r \<in> set (rows n d (drop d xs))"
    by (simp add: rows_Suc)
  then show ?case
  proof
    assume "r = take d xs"
    with Suc.prems(1) show ?thesis by simp
  next
    assume r: "r \<in> set (rows n d (drop d xs))"
    from Suc.prems(1) have "length (drop d xs) = n * d" by simp
    then show ?thesis using r by (rule Suc.IH)
  qed
qed

subsection \<open>Broadcasting equal shapes and a kept axis\<close>

lemma bshape_rev_same [simp]: "bshape_rev xs xs = Some xs"
  by (induction xs) simp_all

lemma broadcast_shapes_same [simp]: "broadcast_shapes s s = Some s"
  by (simp add: broadcast_shapes_def)

lemma pad_shape_same [simp]: "pad_shape (length s) s = s"
  by (simp add: pad_shape_def)

lemma expand_Cons:
  "expand (n # t) (m # u) xs =
     (if m = n then concat (map (expand t u) (rows n (prod_list u) xs))
      else concat (replicate n (expand t u xs)))"
  by (simp add: rows_def comp_def)

lemma expand_same: "length xs = prod_list s \<Longrightarrow> expand s s xs = xs"
proof (induction s arbitrary: xs)
  case Nil
  then show ?case by simp
next
  case (Cons n t)
  then have len: "length xs = n * prod_list t" by simp
  have "map (expand t t) (rows n (prod_list t) xs) = rows n (prod_list t) xs"
  proof (rule map_idI)
    fix r assume "r \<in> set (rows n (prod_list t) xs)"
    with len have "length r = prod_list t" by (rule rows_row_length)
    then show "expand t t r = r" by (rule Cons.IH)
  qed
  with len show ?case
    by (simp add: expand_Cons concat_rows del: expand.simps)
qed

lemma concat_map_concat:
  "concat (map (\<lambda>r. concat (map f r)) rs) = concat (map f (concat rs))"
  by (induction rs) simp_all

lemma expand_keep:
  "length xs = prod_list bs \<Longrightarrow> expand (bs @ [d]) (bs @ [1]) xs = concat (map (replicate d) xs)"
proof (induction bs arbitrary: xs)
  case Nil
  then obtain x where "xs = [x]"
    by (cases xs) simp_all
  then show ?case
    by (auto simp: rows_def)
next
  case (Cons n t)
  then have len: "length xs = n * prod_list t" by simp
  have m: "map (expand (t @ [d]) (t @ [1])) (rows n (prod_list t) xs) =
        map (\<lambda>r. concat (map (replicate d) r)) (rows n (prod_list t) xs)"
  proof (rule map_cong [OF refl])
    fix r assume "r \<in> set (rows n (prod_list t) xs)"
    with len have "length r = prod_list t" by (rule rows_row_length)
    then show "expand (t @ [d]) (t @ [1]) r = concat (map (replicate d) r)" by (rule Cons.IH)
  qed
  have "expand ((n # t) @ [d]) ((n # t) @ [1]) xs =
      concat (map (expand (t @ [d]) (t @ [1])) (rows n (prod_list t) xs))"
    by (simp add: expand_Cons del: expand.simps)
  also have "\<dots> = concat (map (\<lambda>r. concat (map (replicate d) r)) (rows n (prod_list t) xs))"
    by (simp only: m)
  also have "\<dots> = concat (map (replicate d) (concat (rows n (prod_list t) xs)))"
    by (rule concat_map_concat)
  also have "\<dots> = concat (map (replicate d) xs)"
    using len by (simp add: concat_rows)
  finally show ?case .
qed

lemma broadcast_shapes_keep: "broadcast_shapes (bs @ [d]) (bs @ [1]) = Some (bs @ [d])"
  by (simp add: broadcast_shapes_def)

lemma broadcast_shapes_keep': "broadcast_shapes (bs @ [1]) (bs @ [d]) = Some (bs @ [d])"
  by (simp add: broadcast_shapes_def)

lemma bop_same_shape:
  "wf_tensor a \<Longrightarrow> wf_tensor b \<Longrightarrow> shape b = shape a \<Longrightarrow>
   bop f a b = Inr \<lparr>shape = shape a, data = map2 f (data a) (data b)\<rparr>"
  by (simp add: bop_def expand_to_def wf_tensor_def expand_same)

lemma iadd_same_shape:
  "wf_tensor b \<Longrightarrow> shape b = shape a \<Longrightarrow>
   iadd a b = Inr \<lparr>shape = shape a, data = map2 fadd (data a) (data b)\<rparr>"
  by (simp add: iadd_def expand_to_def wf_tensor_def expand_same)


section \<open>The linear and the barycentric blend\<close>

lemma shape_smul [simp]: "shape (smul t w) = shape t"
  by (simp add: smul_def tmap_def)

lemma wf_smul [simp]: "wf_tensor (smul t w) = wf_tensor t"
  by (simp add: smul_def tmap_def wf_tensor_def)

lemma map2_fadd_zeros: "map2 fadd (replicate (length xs) (Fin 0)) xs = xs"
  by (induction xs) simp_all

lemma iadd_zeros_like: "wf_tensor t \<Longrightarrow> iadd (zeros_like t) (smul t w) = Inr (smul t w)"
proof -
  assume wf: "wf_tensor t"
  then have "iadd (zeros_like t) (smul t w) =
      Inr \<lparr>shape = shape (zeros_like t), data = map2 fadd (data (zeros_like t)) (data (smul t w))\<rparr>"
    by (intro iadd_same_shape) (simp_all add: zeros_like_def)
  also have "data (zeros_like t) = replicate (length (data (smul t w))) (Fin 0)"
    using wf by (simp add: zeros_like_def wf_tensor_def smul_def tmap_def)
  finally show ?thesis
    by (simp add: map2_fadd_zeros zeros_like_def)
qed

lemma encode_all_map:
  "map (encode_latent m) images = map Inr latents \<Longrightarrow> encode_all m images = Inr latents"
proof (induction images arbitrary: latents)
  case Nil
  then show ?case by simp
next
  case (Cons img rest)
  then obtain l ls where "latents = l # ls" by (cases latents) simp_all
  with Cons show ?case by simp
qed

lemma linear_loop_bary_loop:
  "map (encode_latent m) images = map Inr latents \<Longrightarrow> length ws = length images \<Longrightarrow>
   linear_loop m (Some b) (zip images ws) = map_sum id Some (bary_loop b (zip latents ws))"
proof (induction images arbitrary: latents ws b)
  case Nil
  then show ?case by simp
next
  case (Cons img rest)
  from Cons.prems(1) obtain l ls where latents: "latents = l # ls"
    and l: "encode_latent m img = Inr l" and ls: "map (encode_latent m) rest = map Inr ls"
    by (cases latents) auto
  from Cons.prems(2) obtain w ws' where ws: "ws = w # ws'" and len: "length ws' = length rest"
    by (cases ws) auto
  show ?case
  proof (cases "iadd b (smul l w)")
    case (Inl e)
    with latents l ws show ?thesis by simp
  next
    case (Inr b')
    with latents l ws Cons.IH [OF ls len] show ?thesis by simp
  qed
qed

lemma bary_loop_returns:
  "list_all wf_tensor latents \<Longrightarrow> list_all (\<lambda>l. shape l = shape b) latents \<Longrightarrow>
   \<exists>r. bary_loop b (zip latents ws) = Inr r \<and> shape r = shape b"
proof (induction latents arbitrary: ws b)
  case Nil
  then show ?case by simp
next
  case (Cons l ls)
  show ?case
  proof (cases ws)
    case Nil
    then show ?thesis by simp
  next
    case (Cons w ws')
    let ?b' = "\<lparr>shape = shape b, data = map2 fadd (data b) (data (smul l w))\<rparr>"
    from Cons.prems have step: "iadd b (smul l w) = Inr ?b'"
      by (intro iadd_same_shape) simp_all
    from Cons.prems have "list_all wf_tensor ls" "list_all (\<lambda>l. shape l = shape ?b') ls"
      by simp_all
    then obtain r where "bary_loop ?b' (zip ls ws') = Inr r" "shape r = shape ?b'"
      using Cons.IH by blast
    with step Cons show ?thesis by simp
  qed
qed

text \<open>
  Claim C5. For images whose latents are well-formed and of one shape, and weights that
  pass the asserts (so there is at least one image), the linear blend of
  \<^verbatim>\<open>images_encoding\<close> and the barycentric blend (\<^verbatim>\<open>barycentric_interpolation\<close> on the
  latents, \<^verbatim>\<open>images_encoding_barycentric\<close> on the images) both return, and return the
  same tensor: adding the first weighted latent to the zero accumulator gives that
  weighted latent, and from there on the two loops do the same additions. The equality is
  exact in the model, hence within every tolerance.
\<close>

theorem linear_equals_barycentric:
  assumes valid: "valid_weights (length images) ws"
    and enc: "map (encode_latent (vae_to m Float32)) images = map Inr latents"
    and wf: "list_all wf_tensor latents"
    and shapes: "list_all (\<lambda>l. shape l = shape (hd latents)) latents"
  shows "\<exists>r. images_encoding m images ws = (vae_to m Float16, Inr (Some r))
           \<and> images_encoding_barycentric m images ws = (vae_to m Float16, Inr r)
           \<and> barycentric_interpolation latents ws = Inr r"
proof -
  from valid have len: "length images = length ws" and sum: "isclose (fsum ws) (Fin 1)"
    by (simp_all add: valid_weights_def)
  from enc have len': "length latents = length images"
    by (metis length_map)
  from sum have "ws \<noteq> []" by (auto simp: atol_def rtol_def)
  with len obtain w ws' where ws: "ws = w # ws'" by (cases ws) auto
  with len obtain img rest where images: "images = img # rest" by (cases images) auto
  with enc obtain l ls where latents: "latents = l # ls"
    and l: "encode_latent (vae_to m Float32) img = Inr l"
    and ls: "map (encode_latent (vae_to m Float32)) rest = map Inr ls"
    by (cases latents) auto
  from len ws images have len2: "length ws' = length rest" by simp
  from wf latents have wfl: "wf_tensor l" and wfls: "list_all wf_tensor ls" by simp_all
  from shapes latents have "list_all (\<lambda>x. shape x = shape (smul l w)) ls" by simp
  with wfls obtain r where r: "bary_loop (smul l w) (zip ls ws') = Inr r"
    using bary_loop_returns by blast
  have bary: "barycentric_interpolation latents ws = Inr r"
    using len len' sum latents ws wfl r
    by (simp add: barycentric_interpolation_def iadd_zeros_like)
  have lin: "linear_loop (vae_to m Float32) None (zip images ws) = Inr (Some r)"
    using images ws l linear_loop_bary_loop [OF ls len2, of "smul l w"] r by simp
  have all: "encode_all (vae_to m Float32) images = Inr latents"
    using enc by (rule encode_all_map)
  show ?thesis
    using len sum lin all bary
    by (simp add: images_encoding_def images_encoding_barycentric_def Let_def)
qed


theorem linear_equals_barycentric_witness:
  "valid_weights 2 [Fin (1 / 2), Fin (1 / 2)]
   \<and> images_encoding (identity_model Float16)
         [pixel_image, \<lparr>shape = [1, 1, 3], data = [Fin 255, Fin 255, Fin 255]\<rparr>] [Fin (1 / 2), Fin (1 / 2)]
       = (identity_model Float16, Inr (Some \<lparr>shape = [1, 3, 1, 1], data = [Fin 0, Fin 1, Fin (1 / 5)]\<rparr>))
   \<and> barycentric_interpolation
         [\<lparr>shape = [1, 3, 1, 1], data = [Fin (- 1), Fin 1, Fin (- (3 / 5))]\<rparr>,
          \<lparr>shape = [1, 3, 1, 1], data = [Fin 1, Fin 1, Fin 1]\<rparr>] [Fin (1 / 2), Fin (1 / 2)]
       = Inr \<lparr>shape = [1, 3, 1, 1], data = [Fin 0, Fin 1, Fin (1 / 5)]\<rparr>"
  using linear_equals_barycentric [of
      "[pixel_image, \<lparr>shape = [1, 1, 3], data = [Fin 255, Fin 255, Fin 255]\<rparr>]"
      "[Fin (1 / 2), Fin (1 / 2)]" "identity_model Float16"
      "[\<lparr>shape = [1, 3, 1, 1], data = [Fin (- 1), Fin 1, Fin (- (3 / 5))]\<rparr>,
        \<lparr>shape = [1, 3, 1, 1], data = [Fin 1, Fin 1, Fin 1]\<rparr>]"]
  by (simp add: eval_defs wf_tensor_def barycentric_interpolation_def zeros_like_def iadd_def
      expand_to_def broadcast_shapes_def pad_shape_def expand_same numeral_3_eq_3)

section \<open>The result of the RBF blend\<close>

lemma length_concat_data:
  "list_all wf_tensor ls \<Longrightarrow> list_all (\<lambda>u. shape u = s) ls \<Longrightarrow>
   length (concat (map data ls)) = length ls * prod_list s"
  by (induction ls) (simp_all add: wf_tensor_def)

lemma broadcast_matrix_column [simp]: "broadcast_shapes [n, k] [n, Suc 0] = Some [n, k]"
  by (simp add: broadcast_shapes_def)

text \<open>
  Claim C4 (the code departs from it). For valid weights and N well-formed latents of one
  shape S, \<^verbatim>\<open>rbf_interpolation\<close> returns a tensor of shape N # S, not of shape S: the
  einsum keeps the index \<open>j\<close> of the kernel matrix, so the result is a stack of N
  blends, one for each column of the row-normalised kernel.
\<close>

theorem rbf_output_shape:
  assumes valid: "valid_weights (length latents) ws"
    and wf: "list_all wf_tensor latents"
    and shapes: "list_all (\<lambda>l. shape l = shape (hd latents)) latents"
  shows "\<exists>t. rbf_interpolation latents ws epsilon = Inr t
           \<and> shape t = length latents # shape (hd latents)"
proof -
  from valid have len: "length latents = length ws" and sum: "isclose (fsum ws) (Fin 1)"
    by (simp_all add: valid_weights_def)
  from sum have "ws \<noteq> []" by (auto simp: atol_def rtol_def)
  with len obtain l ls where latents: "latents = l # ls" by (cases latents) auto
  let ?n = "length latents"
  let ?s = "shape l"
  from shapes latents have sh: "list_all (\<lambda>u. shape u = ?s) latents" by simp
  have st: "stack latents = Inr \<lparr>shape = ?n # ?s, data = concat (map data latents)\<rparr>"
    using sh latents by (simp add: stack_def)
  have n0: "?n \<noteq> 0" using latents by simp
  have cl: "length (concat (map data latents)) = ?n * prod_list ?s"
    using wf sh by (rule length_concat_data)
  have vw: "view_rows \<lparr>shape = ?n # ?s, data = concat (map data latents)\<rparr> ?n =
      Inr \<lparr>shape = [?n, prod_list ?s], data = concat (map data latents)\<rparr>"
    using n0 cl by (simp add: view_rows_def del: length_concat)
  show ?thesis
    using len sum st vw latents
    by (simp add: rbf_interpolation_def ebind_def cdist_def gaussian_rbf_def tmap_def sum_dim1_def
        sum_last_def reduce_last_def keep_shape_def tdiv_def bop_def einsum_ij_i_j_def Let_def
        del: length_concat)
qed


theorem rbf_output_shape_witness:
  "valid_weights 2 [Fin (1 / 2), Fin (1 / 2)]
   \<and> rbf_interpolation [\<lparr>shape = [1], data = [Fin 1]\<rparr>, \<lparr>shape = [1], data = [Fin 1]\<rparr>]
         [Fin (1 / 2), Fin (1 / 2)] (Fin 1) = Inr \<lparr>shape = [2, 1], data = [Fin 1, Fin 1]\<rparr>"
  using rbf_output_shape [of "[\<lparr>shape = [1], data = [Fin 1]\<rparr>, \<lparr>shape = [1], data = [Fin 1]\<rparr>]"
      "[Fin (1 / 2), Fin (1 / 2)]" "Fin 1"]
  by (simp add: rbf_interpolation_def eval_defs stack_def view_rows_def cdist_def rows_def dist2_def
      gaussian_rbf_def sum_dim1_def sum_last_def reduce_last_def keep_shape_def last_dim_def
      tdiv_def bop_def expand_to_def pad_shape_def broadcast_shapes_def einsum_ij_i_j_def)

lemma rows_one: "rows (Suc 0) (length xs) xs = [xs]"
  by (simp add: rows_def)

lemma fsub_self: "is_fin x \<Longrightarrow> fsub x x = Fin 0"
  by (cases x) (simp_all add: fsub_def)

lemma fsum_zeros: "\<forall>y\<in>set ys. y = Fin 0 \<Longrightarrow> fsum ys = Fin 0"
  by (induction ys) (simp_all add: fsum_def)

lemma dist2_self: "list_all is_fin xs \<Longrightarrow> dist2 xs xs = Fin 0"
proof -
  assume fin: "list_all is_fin xs"
  have "\<forall>y\<in>set (map2 (\<lambda>x y. let z = fsub x y in fmul z z) xs xs). y = Fin 0"
    using fin by (induction xs) (auto simp: fsub_self)
  then have "fsum (map2 (\<lambda>x y. let z = fsub x y in fmul z z) xs xs) = Fin 0"
    by (rule fsum_zeros)
  then show ?thesis by (simp add: dist2_def)
qed

lemma map_nth_one: "map (\<lambda>r. fmul (Fin 1) (xs ! r)) [0..<length xs] = xs"
  by (simp add: map_nth)

text \<open>
  Claim C7 (the code departs from it, by the defect of C4). For a single well-formed
  latent L of finite numbers, valid weights and a finite epsilon, the distance matrix is
  [[0]], the kernel and the normalised kernel are [[1]], and \<^verbatim>\<open>rbf_interpolation\<close>
  returns the numbers of L unchanged, but under a new first axis of size 1: the result
  has shape 1 # S and is not L.
\<close>

theorem rbf_single_latent:
  assumes valid: "valid_weights 1 ws"
    and wf: "wf_tensor L"
    and fin: "list_all is_fin (data L)"
  shows "rbf_interpolation [L] ws (Fin e) = Inr \<lparr>shape = 1 # shape L, data = data L\<rparr>"
proof -
  from valid have len: "length ws = 1" and sum: "isclose (fsum ws) (Fin 1)"
    by (simp_all add: valid_weights_def)
  let ?xs = "data L"
  have st: "stack [L] = Inr \<lparr>shape = 1 # shape L, data = ?xs\<rparr>"
    by (simp add: stack_def)
  have vw: "view_rows \<lparr>shape = 1 # shape L, data = ?xs\<rparr> 1 = Inr \<lparr>shape = [1, length ?xs], data = ?xs\<rparr>"
    by (simp add: view_rows_def)
  have cd: "cdist \<lparr>shape = [1, length ?xs], data = ?xs\<rparr> \<lparr>shape = [1, length ?xs], data = ?xs\<rparr>
      = Inr \<lparr>shape = [1, 1], data = [Fin 0]\<rparr>"
    using fin by (simp add: cdist_def rows_one dist2_self)
  have ga: "gaussian_rbf \<lparr>shape = [1, 1], data = [Fin 0]\<rparr> (Fin e) = \<lparr>shape = [1, 1], data = [Fin 1]\<rparr>"
    by (simp add: gaussian_rbf_def tmap_def)
  have su: "sum_dim1 \<lparr>shape = [1, 1], data = [Fin 1]\<rparr> = Inr \<lparr>shape = [1, 1], data = [Fin 1]\<rparr>"
    by (simp add: sum_dim1_def sum_last_def reduce_last_def keep_shape_def last_dim_def rows_def)
  have dv: "tdiv \<lparr>shape = [1, 1], data = [Fin 1]\<rparr> \<lparr>shape = [1, 1], data = [Fin 1]\<rparr>
      = Inr \<lparr>shape = [1, 1], data = [Fin 1]\<rparr>"
    by (simp add: tdiv_def bop_same_shape wf_tensor_def)
  have ei: "einsum_ij_i_j \<lparr>shape = [1, 1], data = [Fin 1]\<rparr> \<lparr>shape = 1 # shape L, data = ?xs\<rparr>
      = Inr \<lparr>shape = 1 # shape L, data = ?xs\<rparr>"
  proof -
    from wf have p: "prod_list (shape L) = length ?xs" by (simp add: wf_tensor_def)
    show ?thesis
      by (simp add: einsum_ij_i_j_def Let_def rows_def p map_nth)
  qed
  show ?thesis
    using len sum st vw cd ga su dv ei by (simp add: rbf_interpolation_def ebind_def)
qed


theorem rbf_single_latent_witness:
  "valid_weights 1 [Fin 1]
   \<and> rbf_interpolation [\<lparr>shape = [2], data = [Fin 1, Fin 2]\<rparr>] [Fin 1] (Fin 3)
       = Inr \<lparr>shape = [1, 2], data = [Fin 1, Fin 2]\<rparr>
   \<and> \<lparr>shape = [1, 2], data = [Fin 1, Fin 2]\<rparr> \<noteq> \<lparr>shape = [2], data = [Fin 1, Fin 2]\<rparr>"
  using rbf_single_latent [of "[Fin 1]" "\<lparr>shape = [2], data = [Fin 1, Fin 2]\<rparr>" 3]
  by (simp add: valid_weights_def atol_def rtol_def wf_tensor_def)

section \<open>The weighted slerp\<close>

subsection \<open>Tensors as lists of rows\<close>

lemma prod_list_split: "prod_list s = prod_list (butlast s) * last_dim s"
proof (cases "s = []")
  case True
  then show ?thesis by (simp add: last_dim_def)
next
  case False
  then have "prod_list (butlast s @ [last s]) = prod_list s" by simp
  moreover have "prod_list (butlast s @ [last s]) = prod_list (butlast s) * last s"
    by (simp del: append_butlast_last_id)
  ultimately show ?thesis using False by (simp add: last_dim_def)
qed

lemma length_concat_rows:
  "\<forall>r\<in>set rs. length r = d \<Longrightarrow> length (concat rs) = length rs * d"
  by (induction rs) simp_all

lemma wf_rows:
  "wf_tensor v \<Longrightarrow>
   data v = concat (rows (prod_list (butlast (shape v))) (last_dim (shape v)) (data v))"
  by (metis concat_rows prod_list_split wf_tensor_def)

lemma rows_of_wf:
  "wf_tensor v \<Longrightarrow> r \<in> set (rows (prod_list (butlast (shape v))) (last_dim (shape v)) (data v)) \<Longrightarrow>
   length r = last_dim (shape v)"
  by (metis rows_row_length prod_list_split wf_tensor_def)

lemma reduce_last_rows:
  assumes "length rs = prod_list (butlast s)" and "\<forall>r\<in>set rs. length r = last_dim s"
  shows "reduce_last f \<lparr>shape = s, data = concat rs\<rparr> = \<lparr>shape = keep_shape s, data = map f rs\<rparr>"
proof -
  have "rows (prod_list (butlast s)) (last_dim s) (concat rs) = rs"
    using assms rows_concat [of rs "last_dim s"] by simp
  then show ?thesis by (simp add: reduce_last_def)
qed

lemma map2_replicate_right: "map2 f r (replicate (length r) k) = map (\<lambda>x. f x k) r"
  by (induction r) simp_all

lemma map2_replicate_left: "map2 f (replicate (length r) k) r = map (f k) r"
  by (induction r) simp_all

lemma map2_concat_replicate_right:
  "length rs = length ks \<Longrightarrow> \<forall>r\<in>set rs. length r = d \<Longrightarrow>
   map2 f (concat rs) (concat (map (replicate d) ks)) = concat (map2 (\<lambda>r k. map (\<lambda>x. f x k) r) rs ks)"
proof (induction rs ks rule: list_induct2)
  case Nil
  then show ?case by simp
next
  case (Cons r rs k ks)
  then have d: "length r = d" by simp
  from Cons have "map2 f (concat rs) (concat (map (replicate d) ks)) =
      concat (map2 (\<lambda>r k. map (\<lambda>x. f x k) r) rs ks)" by simp
  with d map2_replicate_right [of f r k] show ?case by simp
qed

lemma map2_concat_replicate_left:
  "length rs = length ks \<Longrightarrow> \<forall>r\<in>set rs. length r = d \<Longrightarrow>
   map2 f (concat (map (replicate d) ks)) (concat rs) = concat (map2 (\<lambda>k r. map (f k) r) ks rs)"
proof (induction rs ks rule: list_induct2)
  case Nil
  then show ?case by simp
next
  case (Cons r rs k ks)
  then have d: "length r = d" by simp
  from Cons have "map2 f (concat (map (replicate d) ks)) (concat rs) =
      concat (map2 (\<lambda>k r. map (f k) r) ks rs)" by simp
  with d map2_replicate_left [of f r k] show ?case by simp
qed

lemma map2_concat_rows:
  "length rs = length rs' \<Longrightarrow> \<forall>r\<in>set rs. length r = d \<Longrightarrow> \<forall>r\<in>set rs'. length r = d \<Longrightarrow>
   map2 f (concat rs) (concat rs') = concat (map2 (map2 f) rs rs')"
proof (induction rs rs' rule: list_induct2)
  case Nil
  then show ?case by simp
next
  case (Cons r rs r' rs')
  then show ?case by simp
qed

lemma concat_replicate_one [simp]: "concat (map (replicate (Suc 0)) ks) = ks"
  by (induction ks) simp_all

lemma keep_shape_split: "s \<noteq> [] \<Longrightarrow> s = butlast s @ [last_dim s] \<and> keep_shape s = butlast s @ [1]"
  by (simp add: last_dim_def keep_shape_def)

lemma bop_keep_right:
  assumes rs: "length rs = prod_list (butlast s)" "\<forall>r\<in>set rs. length r = last_dim s"
    and ks: "length ks = prod_list (butlast s)"
  shows "bop f \<lparr>shape = s, data = concat rs\<rparr> \<lparr>shape = keep_shape s, data = ks\<rparr> =
         Inr \<lparr>shape = s, data = concat (map2 (\<lambda>r k. map (\<lambda>x. f x k) r) rs ks)\<rparr>"
proof -
  have "length (concat rs) = length rs * last_dim s"
    using rs(2) by (rule length_concat_rows)
  then have len: "length (concat rs) = prod_list s"
    using rs(1) prod_list_split [of s] by simp
  have m: "map2 f (concat rs) (concat (map (replicate (last_dim s)) ks)) =
      concat (map2 (\<lambda>r k. map (\<lambda>x. f x k) r) rs ks)"
    using rs ks by (intro map2_concat_replicate_right) simp_all
  show ?thesis
  proof (cases "s = []")
    case True
    with ks have "concat (map (replicate (last_dim s)) ks) = ks"
      by (simp add: last_dim_def)
    with m True len show ?thesis
      by (simp add: bop_def expand_to_def keep_shape_def del: length_concat)
  next
    case False
    then have s: "s = butlast s @ [last_dim s]" and k: "keep_shape s = butlast s @ [1]"
      using keep_shape_split by blast+
    have b: "broadcast_shapes s (keep_shape s) = Some s"
      using broadcast_shapes_keep [of "butlast s" "last_dim s"] s k by simp
    have e1: "expand s s (concat rs) = concat rs"
      using len by (rule expand_same)
    have "expand (butlast s @ [last_dim s]) (butlast s @ [1]) ks = concat (map (replicate (last_dim s)) ks)"
      using ks by (rule expand_keep)
    then have e2: "expand s (keep_shape s) ks = concat (map (replicate (last_dim s)) ks)"
      using s k by simp
    have l: "length (keep_shape s) = length s"
      using False by (simp add: keep_shape_def)
    show ?thesis
      using b e1 e2 m l by (simp add: bop_def expand_to_def pad_shape_def del: length_concat)
  qed
qed

lemma bop_keep_left:
  assumes rs: "length rs = prod_list (butlast s)" "\<forall>r\<in>set rs. length r = last_dim s"
    and ks: "length ks = prod_list (butlast s)"
  shows "bop f \<lparr>shape = keep_shape s, data = ks\<rparr> \<lparr>shape = s, data = concat rs\<rparr> =
         Inr \<lparr>shape = s, data = concat (map2 (\<lambda>k r. map (f k) r) ks rs)\<rparr>"
proof -
  have "length (concat rs) = length rs * last_dim s"
    using rs(2) by (rule length_concat_rows)
  then have len: "length (concat rs) = prod_list s"
    using rs(1) prod_list_split [of s] by simp
  have m: "map2 f (concat (map (replicate (last_dim s)) ks)) (concat rs) =
      concat (map2 (\<lambda>k r. map (f k) r) ks rs)"
    using rs ks by (intro map2_concat_replicate_left) simp_all
  show ?thesis
  proof (cases "s = []")
    case True
    with ks have "concat (map (replicate (last_dim s)) ks) = ks"
      by (simp add: last_dim_def)
    with m True len show ?thesis
      by (simp add: bop_def expand_to_def keep_shape_def del: length_concat)
  next
    case False
    then have s: "s = butlast s @ [last_dim s]" and k: "keep_shape s = butlast s @ [1]"
      using keep_shape_split by blast+
    have b: "broadcast_shapes (keep_shape s) s = Some s"
      using broadcast_shapes_keep' [of "butlast s" "last_dim s"] s k by simp
    have e1: "expand s s (concat rs) = concat rs"
      using len by (rule expand_same)
    have "expand (butlast s @ [last_dim s]) (butlast s @ [1]) ks = concat (map (replicate (last_dim s)) ks)"
      using ks by (rule expand_keep)
    then have e2: "expand s (keep_shape s) ks = concat (map (replicate (last_dim s)) ks)"
      using s k by simp
    have l: "length (keep_shape s) = length s"
      using False by (simp add: keep_shape_def)
    show ?thesis
      using b e1 e2 m l by (simp add: bop_def expand_to_def pad_shape_def del: length_concat)
  qed
qed

lemma bop_rows:
  assumes rs: "length rs = prod_list (butlast s)" "\<forall>r\<in>set rs. length r = last_dim s"
    and rs': "length rs' = prod_list (butlast s)" "\<forall>r\<in>set rs'. length r = last_dim s"
  shows "bop f \<lparr>shape = s, data = concat rs\<rparr> \<lparr>shape = s, data = concat rs'\<rparr> =
         Inr \<lparr>shape = s, data = concat (map2 (map2 f) rs rs')\<rparr>"
proof -
  have "length (concat rs) = length rs * last_dim s" "length (concat rs') = length rs' * last_dim s"
    using rs(2) rs'(2) by (simp_all only: length_concat_rows)
  then have len: "length (concat rs) = prod_list s" "length (concat rs') = prod_list s"
    using rs(1) rs'(1) prod_list_split [of s] by simp_all
  have "map2 f (concat rs) (concat rs') = concat (map2 (map2 f) rs rs')"
    using rs rs' by (intro map2_concat_rows [of _ _ "last_dim s"]) simp_all
  with len show ?thesis
    by (simp add: bop_same_shape wf_tensor_def)
qed

lemma prod_list_keep_shape: "prod_list (keep_shape s) = prod_list (butlast s)"
  by (simp add: keep_shape_def)

lemma bop_kept:
  assumes "length ks = prod_list (butlast s)" and "length ks' = prod_list (butlast s)"
  shows "bop f \<lparr>shape = keep_shape s, data = ks\<rparr> \<lparr>shape = keep_shape s, data = ks'\<rparr> =
         Inr \<lparr>shape = keep_shape s, data = map2 f ks ks'\<rparr>"
  using assms by (simp add: bop_same_shape wf_tensor_def prod_list_keep_shape)


subsection \<open>The weighted slerp, row by row\<close>

lemma map2_map_same: "map2 g rs (map h rs) = map (\<lambda>r. g r (h r)) rs"
  by (induction rs) simp_all

lemma map2_maps_same: "map2 f (map g xs) (map h xs) = map (\<lambda>x. f (g x) (h x)) xs"
  by (induction xs) simp_all

lemma map_map2_maps:
  "map f (map f' (map2 g (map h xs) (map h' ys))) = map2 (\<lambda>x y. f (f' (g (h x) (h' y)))) xs ys"
proof (induction xs arbitrary: ys)
  case Nil
  then show ?case by simp
next
  case (Cons x xs)
  then show ?case by (cases ys) simp_all
qed

lemma length_unit_row [simp]: "length (unit_row r) = length r"
  by (simp add: unit_row_def)

lemma slerp_omega_rows:
  assumes rs0: "length rs0 = prod_list (butlast s)" "\<forall>r\<in>set rs0. length r = last_dim s"
    and rs1: "length rs1 = prod_list (butlast s)" "\<forall>r\<in>set rs1. length r = last_dim s"
  shows "slerp_omega \<lparr>shape = s, data = concat rs0\<rparr> \<lparr>shape = s, data = concat rs1\<rparr> =
         Inr \<lparr>shape = keep_shape s, data = map2 row_omega rs0 rs1\<rparr>"
proof -
  have n0: "norm_last \<lparr>shape = s, data = concat rs0\<rparr> = \<lparr>shape = keep_shape s, data = map norm2 rs0\<rparr>"
    unfolding norm_last_def using rs0 by (rule reduce_last_rows)
  have n1: "norm_last \<lparr>shape = s, data = concat rs1\<rparr> = \<lparr>shape = keep_shape s, data = map norm2 rs1\<rparr>"
    unfolding norm_last_def using rs1 by (rule reduce_last_rows)
  have "tdiv \<lparr>shape = s, data = concat rs0\<rparr> \<lparr>shape = keep_shape s, data = map norm2 rs0\<rparr> =
      Inr \<lparr>shape = s, data = concat (map2 (\<lambda>r k. map (\<lambda>x. fdiv x k) r) rs0 (map norm2 rs0))\<rparr>"
    unfolding tdiv_def using rs0 by (intro bop_keep_right) simp_all
  then have u0: "tdiv \<lparr>shape = s, data = concat rs0\<rparr> \<lparr>shape = keep_shape s, data = map norm2 rs0\<rparr> =
      Inr \<lparr>shape = s, data = concat (map unit_row rs0)\<rparr>"
    by (simp add: map2_map_same unit_row_def [abs_def])
  have "tdiv \<lparr>shape = s, data = concat rs1\<rparr> \<lparr>shape = keep_shape s, data = map norm2 rs1\<rparr> =
      Inr \<lparr>shape = s, data = concat (map2 (\<lambda>r k. map (\<lambda>x. fdiv x k) r) rs1 (map norm2 rs1))\<rparr>"
    unfolding tdiv_def using rs1 by (intro bop_keep_right) simp_all
  then have u1: "tdiv \<lparr>shape = s, data = concat rs1\<rparr> \<lparr>shape = keep_shape s, data = map norm2 rs1\<rparr> =
      Inr \<lparr>shape = s, data = concat (map unit_row rs1)\<rparr>"
    by (simp add: map2_map_same unit_row_def [abs_def])
  let ?pr = "map2 (map2 fmul) (map unit_row rs0) (map unit_row rs1)"
  have pr: "tmul \<lparr>shape = s, data = concat (map unit_row rs0)\<rparr> \<lparr>shape = s, data = concat (map unit_row rs1)\<rparr> =
      Inr \<lparr>shape = s, data = concat ?pr\<rparr>"
    unfolding tmul_def using rs0 rs1 by (intro bop_rows) simp_all
  have lpr: "length ?pr = prod_list (butlast s)"
    using rs0 rs1 by simp
  have rpr: "\<forall>r\<in>set ?pr. length r = last_dim s"
  proof
    fix r assume "r \<in> set ?pr"
    then obtain a b where "a \<in> set rs0" "b \<in> set rs1" "r = map2 fmul (unit_row a) (unit_row b)"
      by (auto simp: zip_map_map dest: set_zip_leftD set_zip_rightD)
    with rs0 rs1 show "length r = last_dim s" by simp
  qed
  have su: "sum_last \<lparr>shape = s, data = concat ?pr\<rparr> = \<lparr>shape = keep_shape s, data = map fsum ?pr\<rparr>"
    unfolding sum_last_def using lpr rpr by (rule reduce_last_rows)
  have om: "map facos (map fsum ?pr) = map2 row_omega rs0 rs1"
    unfolding row_omega_def [abs_def] by (rule map_map2_maps)
  have tm: "tmap facos \<lparr>shape = keep_shape s, data = map fsum ?pr\<rparr> =
      \<lparr>shape = keep_shape s, data = map2 row_omega rs0 rs1\<rparr>"
    unfolding tmap_def by (simp only: tensor.select_convs om)
  show ?thesis
    by (simp only: slerp_omega_def n0 u0 n1 u1 ebind_def sum.case pr Let_def su tm)
qed

lemma weighted_slerp_row_form:
  assumes rs0: "length rs0 = prod_list (butlast s)" "\<forall>r\<in>set rs0. length r = last_dim s"
    and rs1: "length rs1 = prod_list (butlast s)" "\<forall>r\<in>set rs1. length r = last_dim s"
  shows "weighted_slerp t \<lparr>shape = s, data = concat rs0\<rparr> \<lparr>shape = s, data = concat rs1\<rparr> =
         Inr \<lparr>shape = s, data = concat (map2 (slerp_row t) rs0 rs1)\<rparr>"
proof -
  let ?oms = "map2 row_omega rs0 rs1"
  let ?c0 = "\<lambda>om. fdiv (fsin (fmul (fsub (Fin 1) t) om)) (fsin om)"
  let ?c1 = "\<lambda>om. fdiv (fsin (fmul t om)) (fsin om)"
  have lo: "length ?oms = prod_list (butlast s)" using rs0 rs1 by simp
  have om: "slerp_omega \<lparr>shape = s, data = concat rs0\<rparr> \<lparr>shape = s, data = concat rs1\<rparr> =
      Inr \<lparr>shape = keep_shape s, data = ?oms\<rparr>"
    using rs0 rs1 by (rule slerp_omega_rows)
  have "tdiv \<lparr>shape = keep_shape s, data = map (\<lambda>om. fsin (fmul (fsub (Fin 1) t) om)) ?oms\<rparr>
             \<lparr>shape = keep_shape s, data = map fsin ?oms\<rparr> =
      Inr \<lparr>shape = keep_shape s,
           data = map2 fdiv (map (\<lambda>om. fsin (fmul (fsub (Fin 1) t) om)) ?oms) (map fsin ?oms)\<rparr>"
    unfolding tdiv_def using lo by (intro bop_kept) simp_all
  then have c0: "tdiv \<lparr>shape = keep_shape s, data = map (\<lambda>om. fsin (fmul (fsub (Fin 1) t) om)) ?oms\<rparr>
             \<lparr>shape = keep_shape s, data = map fsin ?oms\<rparr> =
      Inr \<lparr>shape = keep_shape s, data = map ?c0 ?oms\<rparr>"
    by (simp only: map2_maps_same)
  have "tdiv \<lparr>shape = keep_shape s, data = map (\<lambda>om. fsin (fmul t om)) ?oms\<rparr>
             \<lparr>shape = keep_shape s, data = map fsin ?oms\<rparr> =
      Inr \<lparr>shape = keep_shape s,
           data = map2 fdiv (map (\<lambda>om. fsin (fmul t om)) ?oms) (map fsin ?oms)\<rparr>"
    unfolding tdiv_def using lo by (intro bop_kept) simp_all
  then have c1: "tdiv \<lparr>shape = keep_shape s, data = map (\<lambda>om. fsin (fmul t om)) ?oms\<rparr>
             \<lparr>shape = keep_shape s, data = map fsin ?oms\<rparr> =
      Inr \<lparr>shape = keep_shape s, data = map ?c1 ?oms\<rparr>"
    by (simp only: map2_maps_same)
  let ?OM = "\<lparr>shape = keep_shape s, data = ?oms\<rparr>"
  have t0: "tmap fsin (lsmul (fsub (Fin 1) t) ?OM) =
      \<lparr>shape = keep_shape s, data = map (\<lambda>om. fsin (fmul (fsub (Fin 1) t) om)) ?oms\<rparr>"
    by (simp add: tmap_def lsmul_def)
  have t1: "tmap fsin (lsmul t ?OM) =
      \<lparr>shape = keep_shape s, data = map (\<lambda>om. fsin (fmul t om)) ?oms\<rparr>"
    by (simp add: tmap_def lsmul_def)
  have ts: "tmap fsin ?OM = \<lparr>shape = keep_shape s, data = map fsin ?oms\<rparr>"
    by (simp add: tmap_def)
  have c0': "tdiv (tmap fsin (lsmul (fsub (Fin 1) t) ?OM)) (tmap fsin ?OM) =
      Inr \<lparr>shape = keep_shape s, data = map ?c0 ?oms\<rparr>"
    unfolding t0 ts by (rule c0)
  have c1': "tdiv (tmap fsin (lsmul t ?OM)) (tmap fsin ?OM) =
      Inr \<lparr>shape = keep_shape s, data = map ?c1 ?oms\<rparr>"
    unfolding t1 ts by (rule c1)
  let ?A = "map2 (\<lambda>k r. map (fmul k) r) (map ?c0 ?oms) rs0"
  let ?B = "map2 (\<lambda>k r. map (fmul k) r) (map ?c1 ?oms) rs1"
  have a: "tmul \<lparr>shape = keep_shape s, data = map ?c0 ?oms\<rparr> \<lparr>shape = s, data = concat rs0\<rparr> =
      Inr \<lparr>shape = s, data = concat ?A\<rparr>"
    unfolding tmul_def using rs0 lo by (intro bop_keep_left) simp_all
  have b: "tmul \<lparr>shape = keep_shape s, data = map ?c1 ?oms\<rparr> \<lparr>shape = s, data = concat rs1\<rparr> =
      Inr \<lparr>shape = s, data = concat ?B\<rparr>"
    unfolding tmul_def using rs1 lo by (intro bop_keep_left) simp_all
  have lA: "length ?A = prod_list (butlast s)" using rs0 rs1 by simp
  have lB: "length ?B = prod_list (butlast s)" using rs0 rs1 by simp
  have rA: "\<forall>r\<in>set ?A. length r = last_dim s"
  proof
    fix r assume "r \<in> set ?A"
    then obtain k a where "a \<in> set rs0" "r = map (fmul k) a"
      by (auto dest: set_zip_rightD)
    with rs0 show "length r = last_dim s" by simp
  qed
  have rB: "\<forall>r\<in>set ?B. length r = last_dim s"
  proof
    fix r assume "r \<in> set ?B"
    then obtain k a where "a \<in> set rs1" "r = map (fmul k) a"
      by (auto dest: set_zip_rightD)
    with rs1 show "length r = last_dim s" by simp
  qed
  have ab: "tadd \<lparr>shape = s, data = concat ?A\<rparr> \<lparr>shape = s, data = concat ?B\<rparr> =
      Inr \<lparr>shape = s, data = concat (map2 (map2 fadd) ?A ?B)\<rparr>"
    unfolding tadd_def using lA rA lB rB by (rule bop_rows)
  have fin: "map2 (map2 fadd) ?A ?B = map2 (slerp_row t) rs0 rs1"
  proof (rule nth_equalityI)
    show "length (map2 (map2 fadd) ?A ?B) = length (map2 (slerp_row t) rs0 rs1)"
      using rs0 rs1 by simp
  next
    fix i assume "i < length (map2 (map2 fadd) ?A ?B)"
    then have i: "i < length rs0" "i < length rs1" by simp_all
    then show "map2 (map2 fadd) ?A ?B ! i = map2 (slerp_row t) rs0 rs1 ! i"
      by (simp add: slerp_row_def Let_def)
  qed
  show ?thesis
    by (simp only: weighted_slerp_def om ebind_def sum.case Let_def c0' a c1' b ab fin)
qed

lemma tensor_rows:
  "wf_tensor v \<Longrightarrow>
   v = \<lparr>shape = shape v,
        data = concat (rows (prod_list (butlast (shape v))) (last_dim (shape v)) (data v))\<rparr>"
  using wf_rows [of v] by simp

lemma weighted_slerp_rows:
  assumes wf0: "wf_tensor v0" and wf1: "wf_tensor v1" and sh: "shape v1 = shape v0"
  shows "weighted_slerp t v0 v1 =
         Inr \<lparr>shape = shape v0,
              data = concat (map2 (slerp_row t)
                (rows (prod_list (butlast (shape v0))) (last_dim (shape v0)) (data v0))
                (rows (prod_list (butlast (shape v0))) (last_dim (shape v0)) (data v1)))\<rparr>"
proof -
  let ?s = "shape v0"
  let ?n = "prod_list (butlast ?s)"
  let ?d = "last_dim ?s"
  have e0: "v0 = \<lparr>shape = ?s, data = concat (rows ?n ?d (data v0))\<rparr>"
    using wf0 by (rule tensor_rows)
  have e1: "v1 = \<lparr>shape = ?s, data = concat (rows ?n ?d (data v1))\<rparr>"
    using tensor_rows [OF wf1] sh by simp
  have r0: "\<forall>r\<in>set (rows ?n ?d (data v0)). length r = ?d"
    using wf0 rows_of_wf by blast
  have r1: "\<forall>r\<in>set (rows ?n ?d (data v1)). length r = ?d"
    using wf1 rows_of_wf [of v1] sh by simp
  have "weighted_slerp t \<lparr>shape = ?s, data = concat (rows ?n ?d (data v0))\<rparr>
          \<lparr>shape = ?s, data = concat (rows ?n ?d (data v1))\<rparr> =
        Inr \<lparr>shape = ?s, data = concat (map2 (slerp_row t) (rows ?n ?d (data v0)) (rows ?n ?d (data v1)))\<rparr>"
    using r0 r1 by (intro weighted_slerp_row_form) simp_all
  with e0 e1 show ?thesis by simp
qed

subsection \<open>The slerp loop is the fold\<close>

lemma slerp_loop_fold:
  "map (encode_latent m) images = map Inr latents \<Longrightarrow> length ws = length images \<Longrightarrow>
   slerp_loop m (Some b) (zip images ws) = map_sum id Some (slerp_fold b (zip latents ws))"
proof (induction images arbitrary: latents ws b)
  case Nil
  then show ?case by simp
next
  case (Cons img rest)
  from Cons.prems(1) obtain l ls where latents: "latents = l # ls"
    and l: "encode_latent m img = Inr l" and ls: "map (encode_latent m) rest = map Inr ls"
    by (cases latents) auto
  from Cons.prems(2) obtain w ws' where ws: "ws = w # ws'" and len: "length ws' = length rest"
    by (cases ws) auto
  show ?case
  proof (cases "weighted_slerp w b l")
    case (Inl e)
    with latents l ws show ?thesis by simp
  next
    case (Inr b')
    with latents l ws Cons.IH [OF ls len] show ?thesis by simp
  qed
qed

text \<open>
  Claim C6. For weights that pass the asserts (so there is at least one image) and images
  with latents L1, L2, ..., the slerp blend of \<^verbatim>\<open>images_encoding_slerp\<close> is the fold from
  the left that starts with L1 times its own weight and combines the running result r with
  every later latent Lk as \<^verbatim>\<open>weighted_slerp(wk, r, Lk)\<close>. And \<^verbatim>\<open>weighted_slerp\<close> of two
  well-formed tensors of one shape is, row by row along the last axis, the formula of
  \<open>slerp_row\<close>: the angle is computed from the rows divided by their norms and the two
  coefficients multiply the rows as they were given.
\<close>

theorem slerp_blend_is_fold:
  assumes valid: "valid_weights (length images) ws"
    and enc: "map (encode_latent (vae_to m Float32)) images = map Inr latents"
    and wf0: "wf_tensor v0" and wf1: "wf_tensor v1" and sh: "shape v1 = shape v0"
  shows "snd (images_encoding_slerp m images ws) =
           map_sum id Some (slerp_fold (smul (hd latents) (hd ws)) (zip (tl latents) (tl ws)))
         \<and> weighted_slerp t v0 v1 =
           Inr \<lparr>shape = shape v0,
                data = concat (map2 (slerp_row t)
                  (rows (prod_list (butlast (shape v0))) (last_dim (shape v0)) (data v0))
                  (rows (prod_list (butlast (shape v0))) (last_dim (shape v0)) (data v1)))\<rparr>"
proof
  from valid have len: "length images = length ws" and sum: "isclose (fsum ws) (Fin 1)"
    by (simp_all add: valid_weights_def)
  from sum have "ws \<noteq> []" by (auto simp: atol_def rtol_def)
  with len obtain w ws' where ws: "ws = w # ws'" by (cases ws) auto
  with len obtain img rest where images: "images = img # rest" by (cases images) auto
  with enc obtain l ls where latents: "latents = l # ls"
    and l: "encode_latent (vae_to m Float32) img = Inr l"
    and ls: "map (encode_latent (vae_to m Float32)) rest = map Inr ls"
    by (cases latents) auto
  from len ws images have len2: "length ws' = length rest" by simp
  have loop: "slerp_loop (vae_to m Float32) None (zip images ws) =
      map_sum id Some (slerp_fold (smul l w) (zip ls ws'))"
    using images ws l slerp_loop_fold [OF ls len2, of "smul l w"] by simp
  show "snd (images_encoding_slerp m images ws) =
      map_sum id Some (slerp_fold (smul (hd latents) (hd ws)) (zip (tl latents) (tl ws)))"
    using len sum loop latents ws
    by (cases "slerp_fold (smul l w) (zip ls ws')")
       (simp_all add: images_encoding_slerp_def Let_def)
next
  show "weighted_slerp t v0 v1 =
      Inr \<lparr>shape = shape v0,
           data = concat (map2 (slerp_row t)
             (rows (prod_list (butlast (shape v0))) (last_dim (shape v0)) (data v0))
             (rows (prod_list (butlast (shape v0))) (last_dim (shape v0)) (data v1)))\<rparr>"
    using wf0 wf1 sh by (rule weighted_slerp_rows)
qed

theorem slerp_blend_is_fold_witness:
  "valid_weights 2 [Fin (1 / 2), Fin (1 / 2)]
   \<and> images_encoding_slerp (identity_model Float16)
         [\<lparr>shape = [1, 2, 1], data = [Fin 255, Fin (255 / 2)]\<rparr>,
          \<lparr>shape = [1, 2, 1], data = [Fin (255 / 2), Fin 255]\<rparr>] [Fin (1 / 2), Fin (1 / 2)]
       = (identity_model Float16,
          Inr (Some \<lparr>shape = [1, 1, 1, 2], data = [Fin (sqrt 2 / 4), Fin (sqrt 2 / 2)]\<rparr>))
   \<and> weighted_slerp (Fin (1 / 2)) \<lparr>shape = [2], data = [Fin (1 / 2), Fin 0]\<rparr>
         \<lparr>shape = [2], data = [Fin 0, Fin 1]\<rparr>
       = Inr \<lparr>shape = [2], data = [Fin (sqrt 2 / 4), Fin (sqrt 2 / 2)]\<rparr>"
  using slerp_blend_is_fold [of
      "[\<lparr>shape = [1, 2, 1], data = [Fin 255, Fin (255 / 2)]\<rparr>,
        \<lparr>shape = [1, 2, 1], data = [Fin (255 / 2), Fin 255]\<rparr>]"
      "[Fin (1 / 2), Fin (1 / 2)]" "identity_model Float16"
      "[\<lparr>shape = [1, 1, 1, 2], data = [Fin 1, Fin 0]\<rparr>,
        \<lparr>shape = [1, 1, 1, 2], data = [Fin 0, Fin 1]\<rparr>]"
      "\<lparr>shape = [2], data = [Fin (1 / 2), Fin 0]\<rparr>" "\<lparr>shape = [2], data = [Fin 0, Fin 1]\<rparr>"
      "Fin (1 / 2)"]
  by (simp add: images_encoding_slerp_def eval_defs weighted_slerp_rows wf_tensor_def last_dim_def
      rows_def slerp_row_def row_omega_def unit_row_def norm2_def real_sqrt_divide sin_45)

subsection \<open>Sums that are not finite\<close>

lemma fdiv_NaN_right [simp]: "fdiv x NaN = NaN"
  by (cases x) simp_all

lemma fadd_NaN_right [simp]: "fadd x NaN = NaN"
  by (cases x) simp_all

lemma fmul_NaN_right [simp]: "fmul x NaN = NaN"
  by (cases x) simp_all

lemma foldl_fadd_NaN [simp]: "foldl fadd NaN xs = NaN"
  by (induction xs) simp_all

lemma foldl_fadd_not_finite:
  "a \<noteq> NInf \<Longrightarrow> \<forall>x\<in>set xs. x \<noteq> NInf \<Longrightarrow> \<not> is_fin a \<or> (\<exists>x\<in>set xs. \<not> is_fin x) \<Longrightarrow>
   foldl fadd a xs = PInf \<or> foldl fadd a xs = NaN"
proof (induction xs arbitrary: a)
  case Nil
  then show ?case by (cases a) simp_all
next
  case (Cons x xs)
  have 1: "fadd a x \<noteq> NInf"
    using Cons.prems(1,2) by (cases a; cases x) simp_all
  have 2: "\<forall>y\<in>set xs. y \<noteq> NInf"
    using Cons.prems(2) by simp
  have 3: "\<not> is_fin (fadd a x) \<or> (\<exists>y\<in>set xs. \<not> is_fin y)"
    using Cons.prems(3) by (cases a; cases x) auto
  from Cons.IH [OF 1 2 3] show ?case by simp
qed

lemma fsum_not_finite:
  "\<forall>x\<in>set xs. x \<noteq> NInf \<Longrightarrow> \<exists>x\<in>set xs. \<not> is_fin x \<Longrightarrow> fsum xs = PInf \<or> fsum xs = NaN"
  unfolding fsum_def by (rule foldl_fadd_not_finite) simp_all

lemma fsum_NaN: "NaN \<in> set xs \<Longrightarrow> fsum xs = NaN"
proof -
  have "NaN \<in> set xs \<Longrightarrow> foldl fadd a xs = NaN" for a
    by (induction xs arbitrary: a) auto
  then show "NaN \<in> set xs \<Longrightarrow> fsum xs = NaN" by (simp add: fsum_def)
qed

lemma foldl_fadd_Fin: "foldl fadd (Fin a) (map Fin ys) = Fin (a + sum_list ys)"
  by (induction ys arbitrary: a) (simp_all add: add.assoc)

lemma fsum_Fin: "fsum (map Fin ys) = Fin (sum_list ys)"
  by (simp add: fsum_def foldl_fadd_Fin)

lemma all_fin_map: "list_all is_fin r \<Longrightarrow> \<exists>xs. r = map Fin xs"
proof (induction r)
  case Nil
  then show ?case by simp
next
  case (Cons x r)
  then obtain xs where "r = map Fin xs" by auto
  moreover from Cons.prems obtain a where "x = Fin a" by (cases x) simp_all
  ultimately have "x # r = map Fin (a # xs)" by simp
  then show ?case by (rule exI [of _ "a # xs"])
qed

lemma map2_same: "map2 f xs xs = map (\<lambda>x. f x x) xs"
  by (induction xs) simp_all

lemma square_not_NInf: "fmul x x \<noteq> NInf"
  by (cases x) (simp_all add: signed_inf_def)

lemma square_not_finite: "\<not> is_fin x \<Longrightarrow> \<not> is_fin (fmul x x)"
  by (cases x) simp_all

subsection \<open>The angle of a row with itself\<close>

lemma sum_list_squares_divide:
  "sum_list (map (\<lambda>a. a / c * (a / c)) xs) = sum_list (map (\<lambda>a. a * a) xs) / (c * c)" for c :: real
  by (induction xs) (simp_all add: add_divide_distrib)

lemma norm2_not_finite:
  assumes "\<exists>x\<in>set r. \<not> is_fin x"
  shows "norm2 r = PInf \<or> norm2 r = NaN"
proof -
  have "fsum (map (\<lambda>x. fmul x x) r) = PInf \<or> fsum (map (\<lambda>x. fmul x x) r) = NaN"
  proof (rule fsum_not_finite)
    show "\<forall>x\<in>set (map (\<lambda>x. fmul x x) r). x \<noteq> NInf"
      by (auto simp: square_not_NInf)
    from assms obtain x where "x \<in> set r" "\<not> is_fin x" by blast
    then have "fmul x x \<in> set (map (\<lambda>x. fmul x x) r)" "\<not> is_fin (fmul x x)"
      by (simp_all add: square_not_finite)
    then show "\<exists>x\<in>set (map (\<lambda>x. fmul x x) r). \<not> is_fin x" by blast
  qed
  then show ?thesis by (auto simp: norm2_def)
qed

lemma dot_unit_self:
  assumes "r \<noteq> []"
  shows "fsum (map2 fmul (unit_row r) (unit_row r)) \<in> {Fin 1, PInf, NaN}"
proof (cases "list_all is_fin r")
  case False
  then obtain x where x: "x \<in> set r" "\<not> is_fin x"
    by (auto simp: list_all_iff)
  then have "norm2 r = PInf \<or> norm2 r = NaN"
    using norm2_not_finite by blast
  with x(2) have "fdiv x (norm2 r) = NaN"
    by (cases x) auto
  with x(1) have "NaN \<in> set (unit_row r)"
    by (force simp: unit_row_def)
  then have "NaN \<in> set (map2 fmul (unit_row r) (unit_row r))"
    by (force simp: map2_same)
  then show ?thesis by (simp add: fsum_NaN)
next
  case True
  then obtain xs where r: "r = map Fin xs" using all_fin_map by blast
  let ?q = "sum_list (map (\<lambda>a. a * a) xs)"
  have q0: "0 \<le> ?q" by (rule sum_list_nonneg) auto
  have "fsum (map (\<lambda>x. fmul x x) r) = Fin ?q"
    using fsum_Fin [of "map (\<lambda>a. a * a) xs"] by (simp add: r comp_def)
  with q0 have n: "norm2 r = Fin (sqrt ?q)" by (simp add: norm2_def)
  show ?thesis
  proof (cases "?q = 0")
    case True
    with n have u: "unit_row r = map (\<lambda>a. signed_inf a) xs"
      by (simp add: unit_row_def r comp_def)
    have "fsum (map (\<lambda>x. fmul x x) (unit_row r)) = PInf \<or> fsum (map (\<lambda>x. fmul x x) (unit_row r)) = NaN"
    proof (rule fsum_not_finite)
      show "\<forall>x\<in>set (map (\<lambda>x. fmul x x) (unit_row r)). x \<noteq> NInf"
        by (auto simp: square_not_NInf)
      from assms r obtain a where "a \<in> set xs" by (cases xs) auto
      then have "fmul (signed_inf a) (signed_inf a) \<in> set (map (\<lambda>x. fmul x x) (unit_row r))"
        by (force simp: u)
      moreover have "\<not> is_fin (fmul (signed_inf a) (signed_inf a))"
        by (simp add: signed_inf_def)
      ultimately show "\<exists>x\<in>set (map (\<lambda>x. fmul x x) (unit_row r)). \<not> is_fin x" by blast
    qed
    then show ?thesis by (auto simp: map2_same)
  next
    case False
    with q0 have qpos: "0 < ?q" by simp
    then have s0: "sqrt ?q \<noteq> 0" by simp
    with n have u: "unit_row r = map Fin (map (\<lambda>a. a / sqrt ?q) xs)"
      by (simp add: unit_row_def r comp_def)
    have "map (\<lambda>x. fmul x x) (unit_row r) = map Fin (map (\<lambda>a. a / sqrt ?q * (a / sqrt ?q)) xs)"
      by (simp add: u comp_def)
    then have "fsum (map (\<lambda>x. fmul x x) (unit_row r)) =
        Fin (sum_list (map (\<lambda>a. a / sqrt ?q * (a / sqrt ?q)) xs))"
      by (simp only: fsum_Fin)
    also have "sum_list (map (\<lambda>a. a / sqrt ?q * (a / sqrt ?q)) xs) = ?q / (sqrt ?q * sqrt ?q)"
      by (rule sum_list_squares_divide)
    also have "\<dots> = 1" using qpos by simp
    finally show ?thesis by (simp add: map2_same)
  qed
qed

lemma row_omega_self: "r \<noteq> [] \<Longrightarrow> row_omega r r = Fin 0 \<or> row_omega r r = NaN"
  using dot_unit_self [of r] by (auto simp: row_omega_def)

lemma coefficient_NaN: "om = Fin 0 \<or> om = NaN \<Longrightarrow> fdiv (fsin (fmul a om)) (fsin om) = NaN"
  by (cases a) (auto simp: signed_inf_def)

lemma map2_fadd_NaN: "map2 fadd (map (fmul NaN) r) (map (fmul NaN) r) = replicate (length r) NaN"
  by (induction r) simp_all

lemma slerp_row_self: "slerp_row t r r = replicate (length r) NaN"
proof (cases "r = []")
  case True
  then show ?thesis by (simp add: slerp_row_def Let_def)
next
  case False
  then have om: "row_omega r r = Fin 0 \<or> row_omega r r = NaN" by (rule row_omega_self)
  then show ?thesis
    by (simp only: slerp_row_def Let_def coefficient_NaN [OF om] map2_fadd_NaN)
qed

lemma concat_replicate_rows:
  "concat (map (\<lambda>r. replicate (length r) x) rs) = replicate (length (concat rs)) x"
  by (induction rs) (simp_all add: replicate_add)




subsection \<open>The endpoints of the weighted slerp\<close>

lemma fadd_fin: "is_fin (fadd a b) \<Longrightarrow> is_fin a \<and> is_fin b"
  by (cases a; cases b) simp_all

lemma fmul_fin: "is_fin (fmul a b) \<Longrightarrow> is_fin a \<and> is_fin b"
  by (cases a; cases b) (simp_all add: signed_inf_def split: if_splits)

lemma fdiv_fin: "is_fin (fdiv a b) \<Longrightarrow> is_fin a"
  by (cases a; cases b) (simp_all split: if_splits)

lemma foldl_fadd_fin: "is_fin (foldl fadd a xs) \<Longrightarrow> is_fin a \<and> list_all is_fin xs"
proof (induction xs arbitrary: a)
  case Nil
  then show ?case by simp
next
  case (Cons x xs)
  from Cons.prems have "is_fin (foldl fadd (fadd a x) xs)" by simp
  then have ih: "is_fin (fadd a x) \<and> list_all is_fin xs" by (rule Cons.IH)
  then have "is_fin a \<and> is_fin x" using fadd_fin [of a x] by simp
  with ih show ?case by simp
qed

lemma fsum_fin: "is_fin (fsum xs) \<Longrightarrow> list_all is_fin xs"
  using foldl_fadd_fin [of "Fin 0" xs] by (simp add: fsum_def)

lemma products_fin:
  "length xs = length ys \<Longrightarrow> list_all is_fin (map2 (\<lambda>x y. fmul (fdiv x a) (fdiv y b)) xs ys) \<Longrightarrow>
   list_all is_fin xs \<and> list_all is_fin ys"
proof (induction xs ys rule: list_induct2)
  case Nil
  then show ?case by simp
next
  case (Cons x xs y ys)
  then have "is_fin (fmul (fdiv x a) (fdiv y b))" by simp
  then have "is_fin (fdiv x a)" "is_fin (fdiv y b)"
    using fmul_fin [of "fdiv x a" "fdiv y b"] by simp_all
  then have "is_fin x" and "is_fin y"
    using fdiv_fin [of x a] fdiv_fin [of y b] by simp_all
  with Cons show ?case by simp
qed

lemma map2_of_maps:
  "map2 f (map g xs) (map h ys) = map2 (\<lambda>x y. f (g x) (h y)) xs ys"
proof (induction xs arbitrary: ys)
  case Nil
  then show ?case by simp
next
  case (Cons x xs)
  then show ?case by (cases ys) simp_all
qed

lemma map2_unit_rows:
  "map2 fmul (unit_row r0) (unit_row r1) =
   map2 (\<lambda>x y. fmul (fdiv x (norm2 r0)) (fdiv y (norm2 r1))) r0 r1"
  unfolding unit_row_def by (rule map2_of_maps)

lemma nonzero_fin_sin: "nonzero_fin (fsin om) \<Longrightarrow> \<exists>w. om = Fin w \<and> sin w \<noteq> 0"
  by (cases om) simp_all

lemma facos_fin: "facos d = Fin w \<Longrightarrow> is_fin d"
  by (cases d) simp_all

lemma rows_fin:
  assumes len: "length r0 = length r1" and nz: "nonzero_fin (fsin (row_omega r0 r1))"
  shows "list_all is_fin r0 \<and> list_all is_fin r1"
proof -
  from nz obtain w where "row_omega r0 r1 = Fin w"
    using nonzero_fin_sin by blast
  then have "is_fin (fsum (map2 fmul (unit_row r0) (unit_row r1)))"
    unfolding row_omega_def by (rule facos_fin)
  then have "list_all is_fin (map2 fmul (unit_row r0) (unit_row r1))"
    by (rule fsum_fin)
  then have "list_all is_fin (map2 (\<lambda>x y. fmul (fdiv x (norm2 r0)) (fdiv y (norm2 r1))) r0 r1)"
    by (simp only: map2_unit_rows)
  with len show ?thesis by (rule products_fin)
qed

lemma map2_fadd_one_zero:
  "length r0 = length r1 \<Longrightarrow> list_all is_fin r1 \<Longrightarrow>
   map2 fadd (map (fmul (Fin 1)) r0) (map (fmul (Fin 0)) r1) = r0"
proof (induction r0 r1 rule: list_induct2)
  case Nil
  then show ?case by simp
next
  case (Cons x xs y ys)
  then obtain b where "y = Fin b" by (cases y) simp_all
  with Cons show ?case by simp
qed

lemma map2_fadd_zero_one:
  "length r0 = length r1 \<Longrightarrow> list_all is_fin r0 \<Longrightarrow>
   map2 fadd (map (fmul (Fin 0)) r0) (map (fmul (Fin 1)) r1) = r1"
proof (induction r0 r1 rule: list_induct2)
  case Nil
  then show ?case by simp
next
  case (Cons x xs y ys)
  then obtain a where "x = Fin a" by (cases x) simp_all
  with Cons show ?case by simp
qed

lemma slerp_row_endpoints:
  assumes len: "length r0 = length r1" and nz: "nonzero_fin (fsin (row_omega r0 r1))"
  shows "slerp_row (Fin 0) r0 r1 = r0" and "slerp_row (Fin 1) r0 r1 = r1"
proof -
  from nz obtain w where w: "row_omega r0 r1 = Fin w" "sin w \<noteq> 0"
    using nonzero_fin_sin by blast
  from len nz have fin: "list_all is_fin r0" "list_all is_fin r1"
    using rows_fin [of r0 r1] by simp_all
  have a0: "fdiv (fsin (fmul (fsub (Fin 1) (Fin 0)) (Fin w))) (fsin (Fin w)) = Fin 1"
    using w(2) by (simp add: fsub_def)
  have a1: "fdiv (fsin (fmul (Fin 0) (Fin w))) (fsin (Fin w)) = Fin 0"
    using w(2) by simp
  have b0: "fdiv (fsin (fmul (fsub (Fin 1) (Fin 1)) (Fin w))) (fsin (Fin w)) = Fin 0"
    using w(2) by (simp add: fsub_def)
  have b1: "fdiv (fsin (fmul (Fin 1) (Fin w))) (fsin (Fin w)) = Fin 1"
    using w(2) by simp
  show "slerp_row (Fin 0) r0 r1 = r0"
    unfolding slerp_row_def Let_def w(1) a0 a1 using len fin(2) by (rule map2_fadd_one_zero)
  show "slerp_row (Fin 1) r0 r1 = r1"
    unfolding slerp_row_def Let_def w(1) b0 b1 using len fin(1) by (rule map2_fadd_zero_one)
qed


lemma map2_left: "length xs = length ys \<Longrightarrow> \<forall>i<length xs. f (xs ! i) (ys ! i) = xs ! i \<Longrightarrow> map2 f xs ys = xs"
  by (rule nth_equalityI) simp_all

lemma map2_right: "length xs = length ys \<Longrightarrow> \<forall>i<length xs. f (xs ! i) (ys ! i) = ys ! i \<Longrightarrow> map2 f xs ys = ys"
  by (rule nth_equalityI) simp_all





end
